theory Spec2Isabelle
  imports Main
begin

section \<open>The base view of the component tree (src/js/view/base/View.js)\<close>

text \<open>
  The file defines one class, \<open>App.view.base.View\<close>. Its methods mutate the view
  object, the browser document and one static counter, emit notifications
  (\<open>this.trigger\<close>) and call overridable hooks. The embedding passes this state
  explicitly:
  \<^item> a view is a value of type \<open>view\<close>: its configuration, its mutable fields and
    its \<open>items\<close> (the nested views);
  \<^item> the document, the static \<open>_currentId\<close> and the trace of everything the code
    emitted or called are the global state \<open>gstate\<close>;
  \<^item> a JavaScript exception is the \<open>Inl\<close> of a sum.
  The libraries the file calls (the selector engine and the DOM of jQuery, the
  template engine of underscore, the name resolver \<open>N13.ns\<close>) are not part of the
  file. The DOM is modelled by a small store of elements; the selector engine,
  the template engine and the resolver are parameters (\<open>env\<close>).
\<close>

subsection \<open>JavaScript values the code tests\<close>

text \<open>What a hook returns: the code only asks whether it is \<open>undefined\<close> or \<open>true\<close>.\<close>

datatype jsval = Undefined | JTrue | JFalse | JOther

text \<open>\<open>approved === undefined || approved === true\<close>\<close>

definition approved :: "jsval \<Rightarrow> bool" where
  "approved r = (r = Undefined \<or> r = JTrue)"

text \<open>
  The data handed to the template: \<open>null\<close>, a plain object (what \<open>N13.isObject\<close>
  accepts) or any other value.
\<close>

datatype jsdata = DNull | DObject "(string \<times> string) list" | DOther

text \<open>What the code throws.\<close>

datatype fault =
    NotEnoughContainers string nat
  | TypeError
  | SelectorError string

subsection \<open>The document\<close>

text \<open>
  Elements live in a store and are named by their index, the handle a jQuery
  collection holds. An element that is removed from the document stays in the
  store, without a parent, as a detached node does in the browser. New elements
  are added at the end of the store, so a parent always has a smaller handle than
  its children and the children of an element are in document order. Handle 0 is
  the root of the document.
\<close>

record elem =
  e_id :: "string option"
  e_classes :: "string list"
  e_display :: string
  e_parent :: "nat option"

type_synonym dom = "elem list"

text \<open>\<open>.children()\<close> of one element.\<close>

definition kids :: "dom \<Rightarrow> nat \<Rightarrow> nat list" where
  "kids d h = filter (\<lambda>c. e_parent (d ! c) = Some h) [Suc h ..< length d]"

text \<open>
  All elements below one element, in document order. A child has a larger handle
  than its parent, so below \<open>h\<close> the tree is at most \<open>length d - h\<close> deep.
\<close>

fun below :: "nat \<Rightarrow> dom \<Rightarrow> nat \<Rightarrow> nat list" where
  "below 0 d h = []"
| "below (Suc n) d h = concat (map (\<lambda>c. c # below n d c) (kids d h))"

definition descendants :: "dom \<Rightarrow> nat \<Rightarrow> nat list" where
  "descendants d h = below (length d - h) d h"

definition in_document :: "dom \<Rightarrow> nat list" where
  "in_document d = (if d = [] then [] else 0 # descendants d 0)"

text \<open>
  The selector engine reads a selector, or rejects it. What it reads it as is a
  function that is given the store and the elements to search, in document
  order, and returns the elements it selects (a test on each element for a class
  selector; the first element with the id, and no other, for \<open>#id\<close>, which
  jQuery hands to \<open>getElementById\<close>).
\<close>

type_synonym selection = "dom \<Rightarrow> nat list \<Rightarrow> nat list"

text \<open>
  \<open>$(selector)\<close>: the elements of the document that the selector selects, or a
  thrown syntax error; \<open>$(null)\<close> and \<open>$('')\<close> are the empty collection.
\<close>

definition jq :: "(string \<Rightarrow> selection option) \<Rightarrow> dom \<Rightarrow> string option \<Rightarrow> fault + nat list" where
  "jq sel d target =
     (case target of
        None \<Rightarrow> Inr []
      | Some s \<Rightarrow>
          if s = [] then Inr []
          else (case sel s of
                  None \<Rightarrow> Inl (SelectorError s)
                | Some pick \<Rightarrow> Inr (pick d (in_document d))))"

text \<open>
  \<open>el.find(selector)\<close>: what the selector selects below each element of \<open>el\<close>,
  every element once.
\<close>

definition jq_find :: "(string \<Rightarrow> selection option) \<Rightarrow> dom \<Rightarrow> nat list \<Rightarrow> string \<Rightarrow> fault + nat list" where
  "jq_find sel d hs s =
     (case sel s of
        None \<Rightarrow> Inl (SelectorError s)
      | Some pick \<Rightarrow> Inr (remdups (concat (map (\<lambda>h. pick d (descendants d h)) hs))))"

text \<open>
  \<open>el.append(markup)\<close>: the markup is a list of new elements whose \<open>e_parent\<close> is
  relative to the markup (\<open>None\<close> for a top-level element); every element of \<open>el\<close>
  receives a copy.
\<close>

type_synonym markup = "elem list"

definition instantiate :: "nat \<Rightarrow> nat \<Rightarrow> markup \<Rightarrow> elem list" where
  "instantiate base h m =
     map (\<lambda>e. e\<lparr>e_parent := (case e_parent e of None \<Rightarrow> Some h | Some k \<Rightarrow> Some (base + k))\<rparr>) m"

definition jq_append :: "dom \<Rightarrow> nat list \<Rightarrow> markup \<Rightarrow> dom" where
  "jq_append d hs m = fold (\<lambda>h d'. d' @ instantiate (length d') h m) hs d"

text \<open>\<open>.children()\<close> of a collection, and \<open>.remove()\<close>: each element is detached.\<close>

definition jq_children :: "dom \<Rightarrow> nat list \<Rightarrow> nat list" where
  "jq_children d hs = concat (map (kids d) hs)"

definition detach_at :: "nat \<Rightarrow> dom \<Rightarrow> dom" where
  "detach_at h d = d[h := (d ! h)\<lparr>e_parent := None\<rparr>]"

definition jq_remove :: "dom \<Rightarrow> nat list \<Rightarrow> dom" where
  "jq_remove d hs = fold detach_at hs d"

text \<open>\<open>el.css('display')\<close> reads the first element; \<open>undefined\<close> on an empty collection.\<close>

definition css_display :: "dom \<Rightarrow> nat list \<Rightarrow> string option" where
  "css_display d hs = (case hs of [] \<Rightarrow> None | h # _ \<Rightarrow> Some (e_display (d ! h)))"

text \<open>
  \<open>el.css('display', v)\<close> writes every element; with \<open>undefined\<close> for \<open>v\<close> jQuery
  takes the call as a read and writes nothing.
\<close>

definition set_display_at :: "string \<Rightarrow> nat \<Rightarrow> dom \<Rightarrow> dom" where
  "set_display_at v h d = d[h := (d ! h)\<lparr>e_display := v\<rparr>]"

definition css_set_display :: "dom \<Rightarrow> nat list \<Rightarrow> string option \<Rightarrow> dom" where
  "css_set_display d hs v = (case v of None \<Rightarrow> d | Some s \<Rightarrow> fold (set_display_at s) hs d)"

text \<open>\<open>$(element).attr('id', v)\<close>; again \<open>undefined\<close> writes nothing.\<close>

definition attr_id :: "dom \<Rightarrow> nat \<Rightarrow> string option \<Rightarrow> dom" where
  "attr_id d h v = (case v of None \<Rightarrow> d | Some s \<Rightarrow> d[h := (d ! h)\<lparr>e_id := Some s\<rparr>])"

subsection \<open>Notifications, hooks and the trace\<close>

datatype errmsg =
    ElPathNotSet
  | InvalidTemplate
  | RootNotFound
  | InvalidTemplateData
  | TemplateFault string
  | InvalidElPath "string option"
  | DuplicateIds

datatype channel =
    BeforeInit | Init | BeforeRender | Render | BeforeDestroy | Destroy
  | BeforeClear | Clear | BeforeShow | Show | BeforeHide | Hide
  | BeforeDisable | Disable | BeforeEnable | Enable
  | Error errmsg | Debug

datatype hook =
    OnBeforeInit | OnAfterInit | OnBeforeRender | OnAfterRender
  | OnBeforeDestroy | OnAfterDestroy | OnBeforeClear | OnAfterClear
  | OnBeforeShow | OnAfterShow | OnBeforeHide | OnAfterHide
  | OnBeforeDisable | OnAfterDisable | OnBeforeEnable | OnAfterEnable

text \<open>
  One entry of the trace: a notification of the view of the given class name, a call
  of one of its hooks, a call into Backbone or the observer mixin, or listeners
  taken off elements (\<open>.off()\<close>).
\<close>

datatype event =
    Trigger string channel
  | Call string hook
  | CallParent string
  | MixinObserve string
  | DelegateEvents string
  | UndelegateEvents string
  | Off "nat list"

record gstate =
  dom :: dom
  currentId :: nat
  trace :: "event list"

definition emit :: "event list \<Rightarrow> gstate \<Rightarrow> gstate" where
  "emit es g = g\<lparr>trace := trace g @ es\<rparr>"

subsection \<open>The identifier allocator\<close>

text \<open>
  \<open>'view-' + (++App.view.base.View._currentId)\<close>. The counter is a JavaScript
  number, a double, that starts at 0 and is only incremented by one: it is an
  integer of at most \<open>2 ^ 53\<close>. Below \<open>2 ^ 53\<close> the increment is exact; at
  \<open>2 ^ 53\<close> the sum \<open>2 ^ 53 + 1\<close> is not a double and is rounded back to
  \<open>2 ^ 53\<close>, so the counter stays where it is. \<open>decimal\<close> is the conversion of
  such a number to a string.
\<close>

definition increment :: "nat \<Rightarrow> nat" where
  "increment n = (if n < 2 ^ 53 then Suc n else n)"

text \<open>For evaluation the comparison is made on integers, which are binary.\<close>

lemma increment_code [code]: "increment n = (if int n < 2 ^ 53 then Suc n else n)"
proof -
  have "int n < 2 ^ 53 \<longleftrightarrow> n < 2 ^ 53"
    using of_nat_less_iff[of n "2 ^ 53", where ?'a = int] by simp
  then show ?thesis by (simp add: increment_def)
qed

definition digit :: "nat \<Rightarrow> char" where
  "digit n = char_of (48 + n)"

fun decimal :: "nat \<Rightarrow> string" where
  "decimal n = (if n < 10 then [digit n] else decimal (n div 10) @ [digit (n mod 10)])"

declare decimal.simps [simp del]

definition newId :: "gstate \<Rightarrow> string \<times> gstate" where
  "newId g = (''view-'' @ decimal (increment (currentId g)),
              g\<lparr>currentId := increment (currentId g)\<rparr>)"

subsection \<open>Views\<close>

text \<open>
  The \<open>configs\<close> of a view class: the fields the methods read and never write.
  \<open>elPath\<close> and \<open>itemId\<close> are \<open>None\<close> when the property is \<open>null\<close>; the empty
  string is falsy as well. The seven \<open>onBefore...\<close> fields are what the hook of the
  class returns (\<open>N13.emptyFn\<close> of the base class returns \<open>undefined\<close>).
\<close>

record itemobj =
  cl :: "string option"
  o_elPath :: "string option"
  o_itemId :: "string option"

datatype itemspec = ItemName string | ItemObj itemobj | ItemOther

datatype itemscfg = ItemsNull | ItemsString string | ItemsArray "itemspec list"

record vconf =
  className :: string
  elPath :: "string option"
  autoIncrementId :: string
  containerCls :: string
  template :: "string option"
  templateNs :: string
  templateDataProp :: string
  viewNs :: string
  itemsCfg :: itemscfg
  autoRender :: bool
  itemId :: "string option"
  onBeforeRender :: jsval
  onBeforeClear :: jsval
  onBeforeShow :: jsval
  onBeforeHide :: jsval
  onBeforeDisable :: jsval
  onBeforeEnable :: jsval
  onBeforeDestroy :: jsval

text \<open>
  The fields the methods write. \<open>tpl\<close> is \<open>_tpl\<close>, \<open>None\<close> when it holds a value that
  is not a string; \<open>el\<close> is \<open>None\<close> for \<open>null\<close> and otherwise the handles of the jQuery
  collection; \<open>displayCssValue\<close> is \<open>None\<close> for \<open>undefined\<close>. The two maps send a key to
  the position, in the array built by \<open>_createItems\<close>, of the instance they hold;
  they are association lists in which the first entry of a key counts.
\<close>

record vstate =
  tpl :: "string option"
  templateData :: jsdata
  displayCssValue :: "string option"
  viewMap :: "(string \<times> nat) list"
  itemIdMap :: "(string \<times> nat) list"
  rendered :: bool
  el :: "nat list option"
  initEvents :: bool

text \<open>
  \<open>items\<close> is \<open>None\<close> while the property is not an array; an array can have holes
  (\<open>delete items[i]\<close>), an entry \<open>None\<close>.
\<close>

datatype view = View (conf: vconf) (vst: vstate) (items: "view option list option")

text \<open>
  The collaborators: the selector engine, \<open>N13.ns\<close> on a template name (the
  template class, as the map from a property name to the string it holds),
  \<open>_.template\<close> (the markup, or the message of what it throws) and \<open>N13.ns\<close> on a
  view name (the constructor, which takes the configuration object, if any).
\<close>

record env =
  selector :: "string \<Rightarrow> selection option"
  tplClass :: "string \<Rightarrow> (string \<Rightarrow> string option) option"
  tplEngine :: "string \<Rightarrow> jsdata \<Rightarrow> string + markup"
  viewClass :: "string \<Rightarrow> (itemobj option \<Rightarrow> gstate \<Rightarrow> fault + view \<times> gstate) option"

definition falsy :: "string option \<Rightarrow> bool" where
  "falsy x = (x = None \<or> x = Some [])"

text \<open>String concatenation with a value that may be \<open>null\<close>.\<close>

definition js_str :: "string option \<Rightarrow> string" where
  "js_str x = (case x of None \<Rightarrow> ''null'' | Some s \<Rightarrow> s)"

text \<open>\<open>!this.el || !this.el.length\<close>\<close>

definition noEl :: "vstate \<Rightarrow> bool" where
  "noEl s = (el s = None \<or> el s = Some [])"

subsection \<open>Element resolution and the template\<close>

text \<open>\<open>_updateEl\<close>. A selector that jQuery rejects is caught in the first branch only.\<close>

definition updateEl :: "env \<Rightarrow> string option \<Rightarrow> vconf \<Rightarrow> vstate \<Rightarrow> gstate \<Rightarrow> fault + vstate \<times> gstate" where
  "updateEl E containerQuery c s g =
     (if noEl s then
        let target = (case containerQuery of
                        Some q \<Rightarrow> Some q
                      | None \<Rightarrow> if elPath c = Some (autoIncrementId c) then None else elPath c);
            (s1, g1) = (case jq (selector E) (dom g) target of
                          Inl f \<Rightarrow> (s, emit [Trigger (className c) (Error (InvalidElPath (elPath c)))] g)
                        | Inr hs \<Rightarrow> (s\<lparr>el := Some hs\<rparr>, g));
            g2 = (case el s1 of
                    None \<Rightarrow> g1
                  | Some hs \<Rightarrow> if length hs > 1
                               then emit [Trigger (className c) (Error DuplicateIds)] g1 else g1)
        in if noEl s1 then Inr (s1\<lparr>initEvents := True\<rparr>, g2)
           else if initEvents s1 then Inr (s1, emit [DelegateEvents (className c)] g2)
           else Inr (s1, g2)
      else (case containerQuery of
              None \<Rightarrow> Inr (s, g)
            | Some q \<Rightarrow> (case jq (selector E) (dom g) (Some q) of
                          Inl f \<Rightarrow> Inl f
                        | Inr hs \<Rightarrow> Inr (s\<lparr>el := Some hs\<rparr>, g))))"

definition setTemplate :: "env \<Rightarrow> vconf \<Rightarrow> string option \<Rightarrow> vstate \<Rightarrow> vstate" where
  "setTemplate E c t s =
     (case tplClass E (templateNs c @ ''.'' @ js_str t) of
        None \<Rightarrow> s
      | Some Tpl \<Rightarrow> s\<lparr>tpl := Tpl (templateDataProp c)\<rparr>)"

definition setData :: "jsdata \<Rightarrow> view \<Rightarrow> view" where
  "setData data v = View (conf v) ((vst v)\<lparr>templateData := data\<rparr>) (items v)"

definition setItems :: "view option list option \<Rightarrow> view \<Rightarrow> view" where
  "setItems its v = View (conf v) (vst v) its"

subsection \<open>clear\<close>

text \<open>
  The block \<open>if (this.el) {...}\<close> of \<open>clear\<close>: listeners off the element and its
  children, the children out of the document.
\<close>

definition clearEl :: "nat list option \<Rightarrow> gstate \<Rightarrow> gstate" where
  "clearEl e g =
     (case e of
        None \<Rightarrow> g
      | Some hs \<Rightarrow>
          let children = jq_children (dom g) hs
          in emit [Off hs, Off children] (g\<lparr>dom := jq_remove (dom g) children\<rparr>))"

fun clear :: "view \<Rightarrow> gstate \<Rightarrow> fault + view \<times> gstate"
and clear_array :: "view option list option \<Rightarrow> gstate \<Rightarrow> fault + view option list option \<times> gstate"
and clear_items :: "view option list \<Rightarrow> gstate \<Rightarrow> fault + view option list \<times> gstate"
where
  "clear (View c s its) g =
     (if rendered s then
        let g1 = emit [Trigger (className c) BeforeClear, Call (className c) OnBeforeClear] g
        in if approved (onBeforeClear c) then
             (case clear_array its g1 of
                Inl f \<Rightarrow> Inl f
              | Inr (its', g2) \<Rightarrow>
                  Inr (View c (s\<lparr>rendered := False\<rparr>) its',
                       emit [Call (className c) OnAfterClear, Trigger (className c) Clear]
                         (clearEl (el s) g2)))
           else Inr (View c s its, g1)
      else Inr (View c s its, g))"
| "clear_array None g = Inr (None, g)"
| "clear_array (Some xs) g =
     (case clear_items xs g of Inl f \<Rightarrow> Inl f | Inr (xs', g') \<Rightarrow> Inr (Some xs', g'))"
| "clear_items [] g = Inr ([], g)"
| "clear_items (None # xs) g = Inl TypeError"
| "clear_items (Some x # xs) g =
     (case clear x g of
        Inl f \<Rightarrow> Inl f
      | Inr (x', g1) \<Rightarrow>
          (case clear_items xs g1 of
             Inl f \<Rightarrow> Inl f
           | Inr (xs', g2) \<Rightarrow> Inr (Some x' # xs', g2)))"

subsection \<open>show, hide, disable, enable\<close>

text \<open>
  The four methods have the shape of \<open>clear\<close>: nothing unless \<open>rendered\<close>, the
  notification, the hook, the nested views in order, then the view's own step.
  \<open>this.el.css\<close> on a \<open>null\<close> element throws. \<open>show\<close> is a keyword, so the two
  methods are called \<open>showView\<close> and \<open>hideView\<close>.
\<close>

fun showView :: "view \<Rightarrow> gstate \<Rightarrow> fault + view \<times> gstate"
and showView_array :: "view option list option \<Rightarrow> gstate \<Rightarrow> fault + view option list option \<times> gstate"
and showView_items :: "view option list \<Rightarrow> gstate \<Rightarrow> fault + view option list \<times> gstate"
where
  "showView (View c s its) g =
     (if rendered s then
        let g1 = emit [Trigger (className c) BeforeShow, Call (className c) OnBeforeShow] g
        in if approved (onBeforeShow c) then
             (case showView_array its g1 of
                Inl f \<Rightarrow> Inl f
              | Inr (its', g2) \<Rightarrow>
                  (case el s of
                     None \<Rightarrow> Inl TypeError
                   | Some hs \<Rightarrow>
                       Inr (View c s its',
                            emit [Call (className c) OnAfterShow, Trigger (className c) Show]
                              (g2\<lparr>dom := css_set_display (dom g2) hs (displayCssValue s)\<rparr>))))
           else Inr (View c s its, g1)
      else Inr (View c s its, g))"
| "showView_array None g = Inr (None, g)"
| "showView_array (Some xs) g =
     (case showView_items xs g of Inl f \<Rightarrow> Inl f | Inr (xs', g') \<Rightarrow> Inr (Some xs', g'))"
| "showView_items [] g = Inr ([], g)"
| "showView_items (None # xs) g = Inl TypeError"
| "showView_items (Some x # xs) g =
     (case showView x g of
        Inl f \<Rightarrow> Inl f
      | Inr (x', g1) \<Rightarrow>
          (case showView_items xs g1 of
             Inl f \<Rightarrow> Inl f
           | Inr (xs', g2) \<Rightarrow> Inr (Some x' # xs', g2)))"

fun hideView :: "view \<Rightarrow> gstate \<Rightarrow> fault + view \<times> gstate"
and hideView_array :: "view option list option \<Rightarrow> gstate \<Rightarrow> fault + view option list option \<times> gstate"
and hideView_items :: "view option list \<Rightarrow> gstate \<Rightarrow> fault + view option list \<times> gstate"
where
  "hideView (View c s its) g =
     (if rendered s then
        let g1 = emit [Trigger (className c) BeforeHide, Call (className c) OnBeforeHide] g
        in if approved (onBeforeHide c) then
             (case hideView_array its g1 of
                Inl f \<Rightarrow> Inl f
              | Inr (its', g2) \<Rightarrow>
                  (case el s of
                     None \<Rightarrow> Inl TypeError
                   | Some hs \<Rightarrow>
                       Inr (View c (s\<lparr>displayCssValue := css_display (dom g2) hs\<rparr>) its',
                            emit [Call (className c) OnAfterHide, Trigger (className c) Hide]
                              (g2\<lparr>dom := css_set_display (dom g2) hs (Some ''none'')\<rparr>))))
           else Inr (View c s its, g1)
      else Inr (View c s its, g))"
| "hideView_array None g = Inr (None, g)"
| "hideView_array (Some xs) g =
     (case hideView_items xs g of Inl f \<Rightarrow> Inl f | Inr (xs', g') \<Rightarrow> Inr (Some xs', g'))"
| "hideView_items [] g = Inr ([], g)"
| "hideView_items (None # xs) g = Inl TypeError"
| "hideView_items (Some x # xs) g =
     (case hideView x g of
        Inl f \<Rightarrow> Inl f
      | Inr (x', g1) \<Rightarrow>
          (case hideView_items xs g1 of
             Inl f \<Rightarrow> Inl f
           | Inr (xs', g2) \<Rightarrow> Inr (Some x' # xs', g2)))"

fun disable :: "view \<Rightarrow> gstate \<Rightarrow> fault + view \<times> gstate"
and disable_array :: "view option list option \<Rightarrow> gstate \<Rightarrow> fault + view option list option \<times> gstate"
and disable_items :: "view option list \<Rightarrow> gstate \<Rightarrow> fault + view option list \<times> gstate"
where
  "disable (View c s its) g =
     (if rendered s then
        let g1 = emit [Trigger (className c) BeforeDisable, Call (className c) OnBeforeDisable] g
        in if approved (onBeforeDisable c) then
             (case disable_array its g1 of
                Inl f \<Rightarrow> Inl f
              | Inr (its', g2) \<Rightarrow>
                  Inr (View c s its',
                       emit [Call (className c) OnAfterDisable, Trigger (className c) Disable] g2))
           else Inr (View c s its, g1)
      else Inr (View c s its, g))"
| "disable_array None g = Inr (None, g)"
| "disable_array (Some xs) g =
     (case disable_items xs g of Inl f \<Rightarrow> Inl f | Inr (xs', g') \<Rightarrow> Inr (Some xs', g'))"
| "disable_items [] g = Inr ([], g)"
| "disable_items (None # xs) g = Inl TypeError"
| "disable_items (Some x # xs) g =
     (case disable x g of
        Inl f \<Rightarrow> Inl f
      | Inr (x', g1) \<Rightarrow>
          (case disable_items xs g1 of
             Inl f \<Rightarrow> Inl f
           | Inr (xs', g2) \<Rightarrow> Inr (Some x' # xs', g2)))"

text \<open>
  \<open>enable(cssPaths)\<close> hands its argument to the two hooks only, and calls the nested
  views without one; the hooks of the model do not depend on it.
\<close>

fun enable :: "view \<Rightarrow> gstate \<Rightarrow> fault + view \<times> gstate"
and enable_array :: "view option list option \<Rightarrow> gstate \<Rightarrow> fault + view option list option \<times> gstate"
and enable_items :: "view option list \<Rightarrow> gstate \<Rightarrow> fault + view option list \<times> gstate"
where
  "enable (View c s its) g =
     (if rendered s then
        let g1 = emit [Trigger (className c) BeforeEnable, Call (className c) OnBeforeEnable] g
        in if approved (onBeforeEnable c) then
             (case enable_array its g1 of
                Inl f \<Rightarrow> Inl f
              | Inr (its', g2) \<Rightarrow>
                  Inr (View c s its',
                       emit [Call (className c) OnAfterEnable, Trigger (className c) Enable] g2))
           else Inr (View c s its, g1)
      else Inr (View c s its, g))"
| "enable_array None g = Inr (None, g)"
| "enable_array (Some xs) g =
     (case enable_items xs g of Inl f \<Rightarrow> Inl f | Inr (xs', g') \<Rightarrow> Inr (Some xs', g'))"
| "enable_items [] g = Inr ([], g)"
| "enable_items (None # xs) g = Inl TypeError"
| "enable_items (Some x # xs) g =
     (case enable x g of
        Inl f \<Rightarrow> Inl f
      | Inr (x', g1) \<Rightarrow>
          (case enable_items xs g1 of
             Inl f \<Rightarrow> Inl f
           | Inr (xs', g2) \<Rightarrow> Inr (Some x' # xs', g2)))"

subsection \<open>destroy\<close>

text \<open>
  \<open>clear\<close> changes fields of the views and never the shape of the tree; \<open>destroy\<close>
  and \<open>render\<close> go through the nested views after they called \<open>clear\<close>.
\<close>

lemma clear_size:
  "clear v g = Inr (v', g') \<Longrightarrow> size v' = size v"
  "clear_array a g = Inr (a', g') \<Longrightarrow> size_option (size_list (size_option size)) a' = size_option (size_list (size_option size)) a"
  "clear_items xs g = Inr (xs', g') \<Longrightarrow> size_list (size_option size) xs' = size_list (size_option size) xs"
  by (induction v g and a g and xs g arbitrary: v' g' and a' g' and xs' g'
      rule: clear_clear_array_clear_items.induct)
     (auto simp: Let_def split: if_splits sum.splits prod.splits)

lemma clear_items_smaller:
  "clear (View c s its) g = Inr (v', g') \<Longrightarrow>
   size_option (size_list (size_option size)) (items v')
     < Suc (size_option (size_list (size_option size)) its)"
  using clear_size(1)[of "View c s its" g v' g'] by (cases v') (simp del: clear.simps)

text \<open>
  \<open>delete items[i]\<close> leaves a hole at \<open>i\<close>: the array keeps its length.
\<close>

function destroy :: "view \<Rightarrow> gstate \<Rightarrow> fault + view \<times> gstate"
and destroy_array :: "view option list option \<Rightarrow> gstate \<Rightarrow> fault + view option list option \<times> gstate"
and destroy_items :: "view option list \<Rightarrow> gstate \<Rightarrow> fault + view option list \<times> gstate"
where
  "destroy (View c s its) g =
     (let g1 = emit [Trigger (className c) BeforeDestroy, Call (className c) OnBeforeDestroy] g
      in if approved (onBeforeDestroy c) then
           (case clear (View c s its) (emit [MixinObserve (className c)] g1) of
              Inl f \<Rightarrow> Inl f
            | Inr (v2, g2) \<Rightarrow>
                (case destroy_array (items v2) g2 of
                   Inl f \<Rightarrow> Inl f
                 | Inr (its', g3) \<Rightarrow>
                     Inr (View (conf v2) (vst v2) its',
                          emit [UndelegateEvents (className c), Call (className c) OnAfterDestroy,
                                Trigger (className c) Destroy] g3)))
         else Inr (View c s its, g1))"
| "destroy_array None g = Inr (None, g)"
| "destroy_array (Some xs) g =
     (case destroy_items xs g of Inl f \<Rightarrow> Inl f | Inr (xs', g') \<Rightarrow> Inr (Some xs', g'))"
| "destroy_items [] g = Inr ([], g)"
| "destroy_items (None # xs) g = Inl TypeError"
| "destroy_items (Some x # xs) g =
     (case destroy x g of
        Inl f \<Rightarrow> Inl f
      | Inr (x', g1) \<Rightarrow>
          (case destroy_items xs g1 of
             Inl f \<Rightarrow> Inl f
           | Inr (xs', g2) \<Rightarrow> Inr (None # xs', g2)))"
  by pat_completeness auto
termination
  by (relation "measure (\<lambda>x. case x of
          Inl (v, g) \<Rightarrow> size v
        | Inr (Inl (a, g)) \<Rightarrow> size_option (size_list (size_option size)) a
        | Inr (Inr (xs, g)) \<Rightarrow> size_list (size_option size) xs)")
     (auto simp del: clear.simps dest: clear_items_smaller)

subsection \<open>render\<close>

text \<open>What \<open>render\<close> returns: \<open>this\<close> or \<open>false\<close>.\<close>

datatype rres = RThis | RFalse

text \<open>
  The two conditions on the template: the one before the element is resolved
  (\<open>template === null\<close> or a name that resolves) and the one after \<open>clear()\<close>, on
  \<open>_tpl\<close> and \<open>_templateData\<close>.
\<close>

definition templateOk :: "env \<Rightarrow> vconf \<Rightarrow> bool" where
  "templateOk E c =
     (template c = None \<or> tplClass E (templateNs c @ ''.'' @ js_str (template c)) \<noteq> None)"

definition badTemplateData :: "vstate \<Rightarrow> bool" where
  "badTemplateData s = (tpl s = Some [] \<or> tpl s = None \<or> templateData s = DOther)"

text \<open>
  The \<open>try\<close> block: the message of what was thrown, or the document with the
  markup. Everything that throws between \<open>try\<close> and \<open>catch\<close> ends in the
  notification of the \<open>catch\<close>, also \<open>this.el.append\<close> on a \<open>null\<close> element.
\<close>

definition applyTemplate :: "env \<Rightarrow> vstate \<Rightarrow> gstate \<Rightarrow> string + gstate" where
  "applyTemplate E s g =
     (case el s of
        None \<Rightarrow> Inl ''el is null''
      | Some hs \<Rightarrow>
          (case tplEngine E (js_str (tpl s)) (templateData s) of
             Inl msg \<Rightarrow> Inl msg
           | Inr m \<Rightarrow> Inr (g\<lparr>dom := jq_append (dom g) hs m\<rparr>)))"

text \<open>
  The first two statements of the loop body: \<open>innerId\<close> and the \<open>id\<close> attribute of
  the container. \<open>containers[i]\<close> is the head of the containers that are left;
  \<open>$(undefined)\<close> is the empty collection, on which \<open>attr\<close> does nothing. The
  result is the argument of the nested \<open>render\<close>.
\<close>

definition placeItem :: "string \<Rightarrow> nat list \<Rightarrow> view \<Rightarrow> gstate \<Rightarrow> string option \<times> gstate" where
  "placeItem autoIdName containers item g =
     (let (innerId, g1) = (if elPath (conf item) = Some autoIdName
                           then (let (i, g') = newId g in (Some i, g'))
                           else (None, g));
          g2 = (case containers of
                  [] \<Rightarrow> g1
                | container # _ \<Rightarrow> g1\<lparr>dom := attr_id (dom g1) container innerId\<rparr>)
      in (case innerId of None \<Rightarrow> None | Some i \<Rightarrow> Some (''#'' @ i), g2))"

text \<open>
  \<open>render\<close>, \<open>_renderItems\<close> and its loop. What the nested \<open>render\<close> returns is
  not looked at; what it throws goes through.
\<close>

function render :: "env \<Rightarrow> string option \<Rightarrow> view \<Rightarrow> gstate \<Rightarrow> fault + rres \<times> view \<times> gstate"
and renderItems :: "env \<Rightarrow> view \<Rightarrow> gstate \<Rightarrow> fault + view \<times> gstate"
and renderLoop :: "env \<Rightarrow> string \<Rightarrow> nat list \<Rightarrow> view option list \<Rightarrow> gstate \<Rightarrow> fault + view option list \<times> gstate"
where
  "render E containerQuery (View c s its) g =
     (if falsy (elPath c) then
        Inr (RFalse, View c s its, emit [Trigger (className c) (Error ElPathNotSet)] g)
      else if \<not> templateOk E c then
        Inr (RFalse, View c s its, emit [Trigger (className c) (Error InvalidTemplate)] g)
      else
        (case updateEl E containerQuery c s g of
           Inl f \<Rightarrow> Inl f
         | Inr (s1, g1) \<Rightarrow>
             if noEl s1 then
               Inr (RFalse, View c s1 its, emit [Trigger (className c) (Error RootNotFound)] g1)
             else if approved (onBeforeRender c) then
               (case clear (View c s1 its)
                       (emit [Trigger (className c) BeforeRender, Call (className c) OnBeforeRender,
                              CallParent (className c)] g1) of
                  Inl f \<Rightarrow> Inl f
                | Inr (v2, g3) \<Rightarrow>
                    if badTemplateData (vst v2) then
                      Inr (RFalse, v2, emit [Trigger (className c) (Error InvalidTemplateData)] g3)
                    else
                      (case applyTemplate E (vst v2) g3 of
                         Inl msg \<Rightarrow>
                           Inr (RFalse, v2, emit [Trigger (className c) (Error (TemplateFault msg))] g3)
                       | Inr g4 \<Rightarrow>
                           (case renderItems E v2 g4 of
                              Inl f \<Rightarrow> Inl f
                            | Inr (v3, g5) \<Rightarrow>
                                Inr (RThis,
                                     View (conf v3) ((vst v3)\<lparr>rendered := True\<rparr>) (items v3),
                                     emit [Call (className c) OnAfterRender,
                                           Trigger (className c) Render] g5))))
             else
               Inr (RThis, View c s1 its,
                    emit [Trigger (className c) BeforeRender, Call (className c) OnBeforeRender] g1)))"
| "renderItems E (View c s its) g =
     (case its of
        None \<Rightarrow> Inr (View c s its, g)
      | Some xs \<Rightarrow>
          if xs = [] then Inr (View c s its, g)
          else
            (case el s of
               None \<Rightarrow> Inl TypeError
             | Some hs \<Rightarrow>
                 (case jq_find (selector E) (dom g) hs (''.'' @ containerCls c) of
                    Inl f \<Rightarrow> Inl f
                  | Inr containers \<Rightarrow>
                      if length containers < length xs then
                        Inl (NotEnoughContainers (className c) (length xs))
                      else
                        (case renderLoop E (autoIncrementId c) containers xs g of
                           Inl f \<Rightarrow> Inl f
                         | Inr (xs', g') \<Rightarrow> Inr (View c s (Some xs'), g')))))"
| "renderLoop E autoIdName containers [] g = Inr ([], g)"
| "renderLoop E autoIdName containers (None # xs) g = Inl TypeError"
| "renderLoop E autoIdName containers (Some item # xs) g =
     (case render E (fst (placeItem autoIdName containers item g)) item
             (snd (placeItem autoIdName containers item g)) of
        Inl f \<Rightarrow> Inl f
      | Inr (r, item', g3) \<Rightarrow>
          (case renderLoop E autoIdName (drop 1 containers) xs g3 of
             Inl f \<Rightarrow> Inl f
           | Inr (xs', g4) \<Rightarrow> Inr (Some item' # xs', g4)))"
  by pat_completeness auto
termination
  by (relation "measure (\<lambda>x. case x of
          Inl (E, q, v, g) \<Rightarrow> 2 * size v + 1
        | Inr (Inl (E, v, g)) \<Rightarrow> 2 * size v
        | Inr (Inr (E, a, cs, xs, g)) \<Rightarrow> 2 * size_list (size_option size) xs)")
     (auto simp del: clear.simps dest: clear_size(1))

subsection \<open>Construction\<close>

text \<open>
  \<open>_createItems\<close>. \<open>new (ns(name, false))()\<close> throws a \<open>TypeError\<close> when the name
  does not resolve. The key of an object entry in \<open>viewMap\<close> is the object as a
  string. The accumulator is \<open>instances\<close>. (An assignment to the key
  \<open>__proto__\<close> would replace the prototype of the map and make no entry; the
  names of classes and the values of \<open>itemId\<close> are taken to differ from it.)
\<close>

definition register :: "string \<Rightarrow> view \<Rightarrow> nat \<Rightarrow> vstate \<Rightarrow> vstate" where
  "register key v i s =
     s\<lparr>viewMap := (key, i) # viewMap s,
       itemIdMap := (if falsy (itemId (conf v)) then itemIdMap s
                     else (js_str (itemId (conf v)), i) # itemIdMap s)\<rparr>"

fun createLoop :: "env \<Rightarrow> vconf \<Rightarrow> itemspec list \<Rightarrow> view list \<Rightarrow> vstate \<Rightarrow> gstate \<Rightarrow> fault + view list \<times> vstate \<times> gstate" where
  "createLoop E c [] instances s g = Inr (instances, s, g)"
| "createLoop E c (ItemName n # rest) instances s g =
     (case viewClass E (viewNs c @ ''.'' @ n) of
        None \<Rightarrow> Inl TypeError
      | Some ctor \<Rightarrow>
          (case ctor None g of
             Inl f \<Rightarrow> Inl f
           | Inr (v, g1) \<Rightarrow>
               createLoop E c rest (instances @ [v]) (register n v (length instances) s) g1))"
| "createLoop E c (ItemObj ob # rest) instances s g =
     (case viewClass E (viewNs c @ ''.'' @ js_str (cl ob)) of
        None \<Rightarrow> Inl TypeError
      | Some ctor \<Rightarrow>
          (case ctor (Some ob) g of
             Inl f \<Rightarrow> Inl f
           | Inr (v, g1) \<Rightarrow>
               createLoop E c rest (instances @ [v])
                 (register ''[object Object]'' v (length instances) s) g1))"
| "createLoop E c (ItemOther # rest) instances s g =
     createLoop E c rest instances s (emit [Trigger (className c) Debug] g)"

definition createItems :: "env \<Rightarrow> vconf \<Rightarrow> vstate \<Rightarrow> gstate \<Rightarrow> fault + view \<times> gstate" where
  "createItems E c s g =
     (case (case itemsCfg c of
              ItemsNull \<Rightarrow> None
            | ItemsString n \<Rightarrow> Some [ItemName n]
            | ItemsArray specs \<Rightarrow> Some specs) of
        None \<Rightarrow> Inr (View c s None, g)
      | Some specs \<Rightarrow>
          (case createLoop E c specs [] s g of
             Inl f \<Rightarrow> Inl f
           | Inr (instances, s', g') \<Rightarrow> Inr (View c s' (Some (map Some instances)), g')))"

text \<open>
  \<open>init\<close>, the constructor. The interface mixin runs \<open>initPrivates\<close>, \<open>initPublics\<close>
  and \<open>afterInit\<close>, after \<open>_updateEl\<close> and the constructor of Backbone; \<open>initPublics\<close>
  sets \<open>el\<close> back to \<open>null\<close>, and \<open>_initEvents\<close> is the one field that survives.
\<close>

definition fresh :: vstate where
  "fresh = \<lparr>tpl = None, templateData = DNull, displayCssValue = None,
            viewMap = [], itemIdMap = [], rendered = False,
            el = None, initEvents = False\<rparr>"

definition initPrivates :: "vstate \<Rightarrow> vstate" where
  "initPrivates s = s\<lparr>tpl := Some [], templateData := DNull, displayCssValue := Some ''block'',
                      viewMap := [], itemIdMap := []\<rparr>"

definition initPublics :: "vstate \<Rightarrow> vstate" where
  "initPublics s = s\<lparr>rendered := False, el := None\<rparr>"

definition afterInit :: "env \<Rightarrow> vconf \<Rightarrow> vstate \<Rightarrow> vstate" where
  "afterInit E c s = setTemplate E c (template c) s"

definition init :: "env \<Rightarrow> vconf \<Rightarrow> gstate \<Rightarrow> fault + view \<times> gstate" where
  "init E c g =
     (case updateEl E None c fresh g of
        Inl f \<Rightarrow> Inl f
      | Inr (s1, g1) \<Rightarrow>
          let s2 = afterInit E c (initPublics (initPrivates s1));
              g2 = emit [CallParent (className c), MixinObserve (className c),
                         Trigger (className c) BeforeInit, Call (className c) OnBeforeInit] g1
          in (case createItems E c s2 g2 of
                Inl f \<Rightarrow> Inl f
              | Inr (v, g3) \<Rightarrow>
                  let g4 = emit [Call (className c) OnAfterInit, Trigger (className c) Init] g3
                  in if autoRender c then
                       (case render E None v g4 of
                          Inl f \<Rightarrow> Inl f
                        | Inr (r, v', g5) \<Rightarrow> Inr (v', g5))
                     else Inr (v, g4)))"

subsection \<open>The child lookup\<close>

text \<open>
  The argument of \<open>getItem\<close>: a string, a number that is an integer, a number that
  is not (\<open>$.isNumeric\<close> accepts both), or anything else. The result is \<open>null\<close>
  (\<open>None\<close>), the instance at a position of the array built by \<open>_createItems\<close>, or
  a member that a plain object inherits from \<open>Object.prototype\<close>: the two maps
  are created as \<open>{}\<close>, and \<open>map[key]\<close> finds such a member, which is truthy, where
  the map has no entry of its own. Indexing \<open>null\<close> throws.
\<close>

datatype idarg = IdString string | IdInteger int | IdFraction | IdOther

datatype member = Instance nat | Inherited string

text \<open>
  The names of the members of \<open>Object.prototype\<close>: those of the language
  standard and the ones browsers add.
\<close>

definition objectPrototype :: "string list" where
  "objectPrototype =
     [''constructor'', ''toString'', ''toLocaleString'', ''valueOf'', ''hasOwnProperty'',
      ''isPrototypeOf'', ''propertyIsEnumerable'', ''__proto__'', ''__defineGetter__'',
      ''__defineSetter__'', ''__lookupGetter__'', ''__lookupSetter__'']"

text \<open>\<open>map[key]\<close>, with \<open>None\<close> for \<open>undefined\<close>.\<close>

definition property :: "(string \<times> nat) list \<Rightarrow> string \<Rightarrow> member option" where
  "property m k =
     (case map_of m k of
        Some i \<Rightarrow> Some (Instance i)
      | None \<Rightarrow> if k \<in> set objectPrototype then Some (Inherited k) else None)"

text \<open>\<open>a || b\<close> for values of which only \<open>undefined\<close> is falsy.\<close>

definition orElse :: "'a option \<Rightarrow> 'a option \<Rightarrow> 'a option" where
  "orElse a b = (case a of None \<Rightarrow> b | Some x \<Rightarrow> Some x)"

definition getItem :: "idarg \<Rightarrow> view \<Rightarrow> fault + member option" where
  "getItem i v =
     (case i of
        IdString k \<Rightarrow> Inr (orElse (property (itemIdMap (vst v)) k) (property (viewMap (vst v)) k))
      | IdInteger n \<Rightarrow>
          (case items v of
             None \<Rightarrow> Inl TypeError
           | Some xs \<Rightarrow>
               if 0 \<le> n \<and> nat n < length xs \<and> xs ! nat n \<noteq> None
               then Inr (Some (Instance (nat n)))
               else Inr None)
      | IdFraction \<Rightarrow>
          (case items v of None \<Rightarrow> Inl TypeError | Some xs \<Rightarrow> Inr None)
      | IdOther \<Rightarrow> Inr None)"

subsection \<open>Notions for the statements\<close>

text \<open>
  \<open>new View(...)\<close> where the constructor does not throw: the view and the state it
  leaves.
\<close>

definition construct :: "env \<Rightarrow> vconf \<Rightarrow> gstate \<Rightarrow> view \<times> gstate" where
  "construct E c g = projr (init E c g)"



text \<open>
  What a caller of \<open>render\<close> can see: the result, the \<open>rendered\<close> flag, the trace
  and the document.
\<close>

definition observe :: "fault + rres \<times> view \<times> gstate \<Rightarrow> fault + rres \<times> bool \<times> event list \<times> dom" where
  "observe x =
     (case x of
        Inl f \<Rightarrow> Inl f
      | Inr (r, v, g) \<Rightarrow> Inr (r, rendered (vst v), trace g, dom g))"

text \<open>The state after a call of \<open>render\<close> that did not throw.\<close>

definition after :: "fault + rres \<times> view \<times> gstate \<Rightarrow> view \<times> gstate" where
  "after x = snd (projr x)"

text \<open>
  In the words of the specification: every child is destroyed, in declaration
  order. The result is the state after the last of them.
\<close>

fun destroyInOrder :: "view option list \<Rightarrow> gstate \<Rightarrow> fault + gstate" where
  "destroyInOrder [] g = Inr g"
| "destroyInOrder (None # xs) g = Inl TypeError"
| "destroyInOrder (Some x # xs) g =
     (case destroy x g of Inl f \<Rightarrow> Inl f | Inr (x', g1) \<Rightarrow> destroyInOrder xs g1)"

text \<open>The elements that the views of a tree hold in \<open>el\<close>.\<close>

fun els :: "view \<Rightarrow> nat set"
and els_array :: "view option list option \<Rightarrow> nat set"
and els_items :: "view option list \<Rightarrow> nat set"
where
  "els (View c s its) = (case el s of None \<Rightarrow> {} | Some hs \<Rightarrow> set hs) \<union> els_array its"
| "els_array None = {}"
| "els_array (Some xs) = els_items xs"
| "els_items [] = {}"
| "els_items (None # xs) = els_items xs"
| "els_items (Some x # xs) = els x \<union> els_items xs"

text \<open>\<open>view.hide(); view.show()\<close>\<close>

definition hideThenShow :: "view \<Rightarrow> gstate \<Rightarrow> fault + view \<times> gstate" where
  "hideThenShow v g =
     (case hideView v g of Inl f \<Rightarrow> Inl f | Inr (v1, g1) \<Rightarrow> showView v1 g1)"

subsection \<open>The base class and a small page\<close>

text \<open>The \<open>configs\<close> of \<open>App.view.base.View\<close> itself, with the hooks of the base class.\<close>

definition baseView :: vconf where
  "baseView = \<lparr>className = ''App.view.base.View'', elPath = Some ''auto'',
       autoIncrementId = ''auto'', containerCls = ''innerContainer'', template = None,
       templateNs = ''App.template'', templateDataProp = ''data'', viewNs = ''App.view'',
       itemsCfg = ItemsNull, autoRender = False, itemId = None,
       onBeforeRender = Undefined, onBeforeClear = Undefined, onBeforeShow = Undefined,
       onBeforeHide = Undefined, onBeforeDisable = Undefined, onBeforeEnable = Undefined,
       onBeforeDestroy = Undefined\<rparr>"

text \<open>
  Collaborators for the examples. The selector engine reads \<open>#name\<close> (the first
  element with that id) and \<open>.name\<close> (every element of that class) and rejects
  everything else. There are two templates: \<open>Slot\<close> is one placeholder element,
  \<open>Broken\<close> makes the template engine throw.
\<close>

definition simpleSelector :: "string \<Rightarrow> selection option" where
  "simpleSelector q =
     (case q of
        [] \<Rightarrow> None
      | ch # name \<Rightarrow>
          if name = [] then None
          else if ch = CHR ''#''
            then Some (\<lambda>d hs. take 1 (filter (\<lambda>h. e_id (d ! h) = Some name) hs))
          else if ch = CHR ''.''
            then Some (\<lambda>d hs. filter (\<lambda>h. name \<in> set (e_classes (d ! h))) hs)
          else None)"

definition pageTemplates :: "string \<Rightarrow> (string \<Rightarrow> string option) option" where
  "pageTemplates n =
     (if n = ''App.template.Slot'' then Some (\<lambda>p. if p = ''data'' then Some ''slot'' else None)
      else if n = ''App.template.Broken'' then Some (\<lambda>p. if p = ''data'' then Some ''broken'' else None)
      else None)"

definition pageEngine :: "string \<Rightarrow> jsdata \<Rightarrow> string + markup" where
  "pageEngine t d =
     (if t = ''slot''
      then Inr [\<lparr>e_id = None, e_classes = [''innerContainer''], e_display = ''block'', e_parent = None\<rparr>]
      else Inl ''unexpected token'')"

definition leafEnv :: env where
  "leafEnv = \<lparr>selector = simpleSelector, tplClass = pageTemplates, tplEngine = pageEngine,
              viewClass = (\<lambda>n. None)\<rparr>"

text \<open>\<open>App.view.Leaf\<close>: a view class with the \<open>Slot\<close> template and no nested views.\<close>

definition leafView :: vconf where
  "leafView = baseView\<lparr>className := ''App.view.Leaf'', template := Some ''Slot''\<rparr>"

definition leafCtor :: "itemobj option \<Rightarrow> gstate \<Rightarrow> fault + view \<times> gstate" where
  "leafCtor ob g =
     init leafEnv
       (case ob of
          None \<Rightarrow> leafView
        | Some o' \<Rightarrow> leafView\<lparr>elPath := (case o_elPath o' of None \<Rightarrow> elPath leafView | Some q \<Rightarrow> Some q),
                               itemId := o_itemId o'\<rparr>) g"

definition pageEnv :: env where
  "pageEnv = leafEnv\<lparr>viewClass := (\<lambda>n. if n = ''App.view.Leaf'' then Some leafCtor else None)\<rparr>"

text \<open>A page: the root element and below it one element with the id \<open>root\<close>.\<close>

definition page :: gstate where
  "page = \<lparr>dom = [\<lparr>e_id = None, e_classes = [], e_display = ''block'', e_parent = None\<rparr>,
                  \<lparr>e_id = Some ''root'', e_classes = [], e_display = ''grid'', e_parent = Some 0\<rparr>],
           currentId = 0, trace = []\<rparr>"

text \<open>
  \<open>App.view.Panel\<close>: a view on \<open>#root\<close> with the \<open>Slot\<close> template and one nested
  \<open>Leaf\<close>.
\<close>

definition panelView :: vconf where
  "panelView = baseView\<lparr>className := ''App.view.Panel'', elPath := Some ''#root'',
       template := Some ''Slot'', itemsCfg := ItemsArray [ItemName ''Leaf'']\<rparr>"

text \<open>
  A panel that declares two \<open>Leaf\<close> views, and the state in which \<open>_renderItems\<close>
  finds a constructed panel during \<open>render\<close>: its element resolved to \<open>#root\<close> and
  the markup of \<open>Slot\<close> appended to it.
\<close>

definition twoLeaves :: vconf where
  "twoLeaves = panelView\<lparr>itemsCfg := ItemsArray [ItemName ''Leaf'', ItemName ''Leaf'']\<rparr>"

definition withSlot :: "view \<times> gstate \<Rightarrow> view \<times> gstate" where
  "withSlot p = (View (conf (fst p)) ((vst (fst p))\<lparr>el := Some [1]\<rparr>) (items (fst p)),
                 (snd p)\<lparr>dom := jq_append (dom (snd p)) [1] (projr (pageEngine ''slot'' DNull))\<rparr>)"


text \<open>A panel with a malformed entry between two \<open>Leaf\<close> views.\<close>

definition mixedPanel :: vconf where
  "mixedPanel = panelView\<lparr>itemsCfg := ItemsArray [ItemName ''Leaf'', ItemOther, ItemName ''Leaf'']\<rparr>"

text \<open>
  \<open>rootOnly\<close>: the base class on \<open>#root\<close>, with \<open>template: null\<close> and \<open>items: null\<close>.
  \<open>leafAtRoot\<close>: the \<open>Leaf\<close> class on \<open>#root\<close>; \<open>vetoAtRoot\<close>: the same with an
  \<open>onBeforeRender\<close> that returns \<open>false\<close>.
\<close>

definition rootOnly :: vconf where
  "rootOnly = baseView\<lparr>elPath := Some ''#root''\<rparr>"

definition leafAtRoot :: vconf where
  "leafAtRoot = leafView\<lparr>elPath := Some ''#root''\<rparr>"

definition vetoAtRoot :: vconf where
  "vetoAtRoot = leafAtRoot\<lparr>onBeforeRender := JFalse\<rparr>"

text \<open>A class on \<open>#root\<close> whose template makes the engine throw.\<close>

definition brokenAtRoot :: vconf where
  "brokenAtRoot = baseView\<lparr>className := ''App.view.Broken'', elPath := Some ''#root'',
       template := Some ''Broken''\<rparr>"

text \<open>
  The \<open>Leaf\<close> on \<open>#root\<close> after a first \<open>render\<close>, and the same view after
  \<open>setData(42)\<close>.
\<close>

definition renderedLeaf :: "view \<times> gstate" where
  "renderedLeaf = after (render pageEnv None (fst (construct pageEnv leafAtRoot page))
                                             (snd (construct pageEnv leafAtRoot page)))"

definition staleLeaf :: view where
  "staleLeaf = setData DOther (fst renderedLeaf)"

text \<open>
  A class whose seven \<open>onBefore...\<close> hooks all return \<open>false\<close>, and the rendered
  \<open>Leaf\<close> on \<open>#root\<close> as a view of such a class.
\<close>

definition vetoAll :: "vconf \<Rightarrow> vconf" where
  "vetoAll c = c\<lparr>onBeforeRender := JFalse, onBeforeClear := JFalse, onBeforeShow := JFalse,
                 onBeforeHide := JFalse, onBeforeDisable := JFalse, onBeforeEnable := JFalse,
                 onBeforeDestroy := JFalse\<rparr>"

definition vetoedLeaf :: view where
  "vetoedLeaf = View (vetoAll (conf (fst renderedLeaf))) (vst (fst renderedLeaf)) None"

text \<open>The panel with its \<open>Leaf\<close>, rendered.\<close>

definition renderedPanel :: "view \<times> gstate" where
  "renderedPanel = after (render pageEnv None (fst (construct pageEnv panelView page))
                                              (snd (construct pageEnv panelView page)))"

text \<open>The rendered \<open>Leaf\<close> on \<open>#root\<close> as a view whose \<open>onBeforeHide\<close> returns \<open>false\<close>.\<close>

definition shyLeaf :: view where
  "shyLeaf = View ((conf (fst renderedLeaf))\<lparr>onBeforeHide := JFalse\<rparr>) (vst (fst renderedLeaf)) None"

text \<open>
  The view constructed from \<open>rootOnly\<close> after \<open>setTemplate('Slot')\<close>: the
  configuration still has \<open>template: null\<close>.
\<close>

definition slottedRoot :: view where
  "slottedRoot =
     View rootOnly
       (setTemplate pageEnv rootOnly (Some ''Slot'') (vst (fst (construct pageEnv rootOnly page))))
       None"



section \<open>Properties\<close>

subsection \<open>One step of each method\<close>

lemma emit_simps [simp]:
  "dom (emit es g) = dom g"
  "currentId (emit es g) = currentId g"
  "trace (emit es g) = trace g @ es"
  by (simp_all add: emit_def)

lemma length_jq_remove [simp]: "length (jq_remove d hs) = length d"
  unfolding jq_remove_def by (induction hs arbitrary: d) (simp_all add: detach_at_def)

lemma length_css_set_display [simp]: "length (css_set_display d hs v) = length d"
proof (cases v)
  case (Some x)
  have "length (fold (set_display_at x) hs d) = length d"
    by (induction hs arbitrary: d) (simp_all add: set_display_at_def)
  with Some show ?thesis by (simp add: css_set_display_def)
qed (simp add: css_set_display_def)

lemma clearEl_simps [simp]:
  "currentId (clearEl e g) = currentId g"
  "length (dom (clearEl e g)) = length (dom g)"
  by (simp_all add: clearEl_def Let_def split: option.splits)

text \<open>How a call of each method on a view can end without a fault.\<close>

lemma clear_cases:
  assumes "clear (View c s its) g = Inr (v', g')"
  obtains (idle) "\<not> rendered s" "v' = View c s its" "g' = g"
  | (veto) "rendered s" "\<not> approved (onBeforeClear c)" "v' = View c s its"
      "g' = emit [Trigger (className c) BeforeClear, Call (className c) OnBeforeClear] g"
  | (run) its' g2 where "rendered s" "approved (onBeforeClear c)"
      "clear_array its (emit [Trigger (className c) BeforeClear, Call (className c) OnBeforeClear] g)
         = Inr (its', g2)"
      "v' = View c (s\<lparr>rendered := False\<rparr>) its'"
      "g' = emit [Call (className c) OnAfterClear, Trigger (className c) Clear] (clearEl (el s) g2)"
  using assms by (auto simp: Let_def split: if_splits sum.splits prod.splits)

lemma showView_cases:
  assumes "showView (View c s its) g = Inr (v', g')"
  obtains (idle) "\<not> rendered s" "v' = View c s its" "g' = g"
  | (veto) "rendered s" "\<not> approved (onBeforeShow c)" "v' = View c s its"
      "g' = emit [Trigger (className c) BeforeShow, Call (className c) OnBeforeShow] g"
  | (run) its' g2 hs where "rendered s" "approved (onBeforeShow c)"
      "showView_array its (emit [Trigger (className c) BeforeShow, Call (className c) OnBeforeShow] g)
         = Inr (its', g2)"
      "v' = View c s its'"
      "g' = emit [Call (className c) OnAfterShow, Trigger (className c) Show]
              (g2\<lparr>dom := css_set_display (dom g2) hs (displayCssValue s)\<rparr>)"
      "el s = Some hs"
  using assms by (auto simp: Let_def split: if_splits sum.splits prod.splits option.splits)

lemma hideView_cases:
  assumes "hideView (View c s its) g = Inr (v', g')"
  obtains (idle) "\<not> rendered s" "v' = View c s its" "g' = g"
  | (veto) "rendered s" "\<not> approved (onBeforeHide c)" "v' = View c s its"
      "g' = emit [Trigger (className c) BeforeHide, Call (className c) OnBeforeHide] g"
  | (run) its' g2 hs where "rendered s" "approved (onBeforeHide c)"
      "hideView_array its (emit [Trigger (className c) BeforeHide, Call (className c) OnBeforeHide] g)
         = Inr (its', g2)"
      "v' = View c (s\<lparr>displayCssValue := css_display (dom g2) hs\<rparr>) its'"
      "g' = emit [Call (className c) OnAfterHide, Trigger (className c) Hide]
              (g2\<lparr>dom := css_set_display (dom g2) hs (Some ''none'')\<rparr>)"
      "el s = Some hs"
  using assms by (auto simp: Let_def split: if_splits sum.splits prod.splits option.splits)

lemma disable_cases:
  assumes "disable (View c s its) g = Inr (v', g')"
  obtains (idle) "\<not> rendered s" "v' = View c s its" "g' = g"
  | (veto) "rendered s" "\<not> approved (onBeforeDisable c)" "v' = View c s its"
      "g' = emit [Trigger (className c) BeforeDisable, Call (className c) OnBeforeDisable] g"
  | (run) its' g2 where "rendered s" "approved (onBeforeDisable c)"
      "disable_array its (emit [Trigger (className c) BeforeDisable, Call (className c) OnBeforeDisable] g)
         = Inr (its', g2)"
      "v' = View c s its'"
      "g' = emit [Call (className c) OnAfterDisable, Trigger (className c) Disable] g2"
  using assms by (auto simp: Let_def split: if_splits sum.splits prod.splits)

lemma enable_cases:
  assumes "enable (View c s its) g = Inr (v', g')"
  obtains (idle) "\<not> rendered s" "v' = View c s its" "g' = g"
  | (veto) "rendered s" "\<not> approved (onBeforeEnable c)" "v' = View c s its"
      "g' = emit [Trigger (className c) BeforeEnable, Call (className c) OnBeforeEnable] g"
  | (run) its' g2 where "rendered s" "approved (onBeforeEnable c)"
      "enable_array its (emit [Trigger (className c) BeforeEnable, Call (className c) OnBeforeEnable] g)
         = Inr (its', g2)"
      "v' = View c s its'"
      "g' = emit [Call (className c) OnAfterEnable, Trigger (className c) Enable] g2"
  using assms by (auto simp: Let_def split: if_splits sum.splits prod.splits)

lemma destroy_cases:
  assumes "destroy (View c s its) g = Inr (v', g')"
  obtains (veto) "\<not> approved (onBeforeDestroy c)" "v' = View c s its"
      "g' = emit [Trigger (className c) BeforeDestroy, Call (className c) OnBeforeDestroy] g"
  | (run) v2 g2 its' g3 where "approved (onBeforeDestroy c)"
      "clear (View c s its)
         (emit [Trigger (className c) BeforeDestroy, Call (className c) OnBeforeDestroy,
                MixinObserve (className c)] g) = Inr (v2, g2)"
      "destroy_array (items v2) g2 = Inr (its', g3)"
      "v' = View (conf v2) (vst v2) its'"
      "g' = emit [UndelegateEvents (className c), Call (className c) OnAfterDestroy,
                  Trigger (className c) Destroy] g3"
  using assms
  by (auto simp: Let_def emit_def simp del: clear.simps split: if_splits sum.splits prod.splits)

lemma renderItems_cases:
  assumes "renderItems E (View c s its) g = Inr (v', g')"
  obtains (nothing) "its = None \<or> its = Some []" "v' = View c s its" "g' = g"
  | (loop) xs hs containers xs' where "its = Some xs" "xs \<noteq> []" "el s = Some hs"
      "jq_find (selector E) (dom g) hs (''.'' @ containerCls c) = Inr containers"
      "\<not> length containers < length xs"
      "renderLoop E (autoIncrementId c) containers xs g = Inr (xs', g')"
      "v' = View c s (Some xs')"
  using assms
  by (auto split: if_splits sum.splits prod.splits option.splits)

lemma render_cases:
  assumes "render E q (View c s its) g = Inr (r, v', g')"
  obtains (noPath) "falsy (elPath c)" "r = RFalse" "v' = View c s its"
      "g' = emit [Trigger (className c) (Error ElPathNotSet)] g"
  | (noTemplate) "\<not> falsy (elPath c)" "\<not> templateOk E c" "r = RFalse" "v' = View c s its"
      "g' = emit [Trigger (className c) (Error InvalidTemplate)] g"
  | (noRoot) s1 g1 where "\<not> falsy (elPath c)" "templateOk E c"
      "updateEl E q c s g = Inr (s1, g1)" "noEl s1" "r = RFalse" "v' = View c s1 its"
      "g' = emit [Trigger (className c) (Error RootNotFound)] g1"
  | (veto) s1 g1 where "\<not> falsy (elPath c)" "templateOk E c"
      "updateEl E q c s g = Inr (s1, g1)" "\<not> noEl s1" "\<not> approved (onBeforeRender c)"
      "r = RThis" "v' = View c s1 its"
      "g' = emit [Trigger (className c) BeforeRender, Call (className c) OnBeforeRender] g1"
  | (badData) s1 g1 g3 where "\<not> falsy (elPath c)" "templateOk E c"
      "updateEl E q c s g = Inr (s1, g1)" "\<not> noEl s1" "approved (onBeforeRender c)"
      "clear (View c s1 its)
         (emit [Trigger (className c) BeforeRender, Call (className c) OnBeforeRender,
                CallParent (className c)] g1) = Inr (v', g3)"
      "badTemplateData (vst v')" "r = RFalse"
      "g' = emit [Trigger (className c) (Error InvalidTemplateData)] g3"
  | (engineFault) s1 g1 g3 msg where "\<not> falsy (elPath c)" "templateOk E c"
      "updateEl E q c s g = Inr (s1, g1)" "\<not> noEl s1" "approved (onBeforeRender c)"
      "clear (View c s1 its)
         (emit [Trigger (className c) BeforeRender, Call (className c) OnBeforeRender,
                CallParent (className c)] g1) = Inr (v', g3)"
      "\<not> badTemplateData (vst v')" "applyTemplate E (vst v') g3 = Inl msg" "r = RFalse"
      "g' = emit [Trigger (className c) (Error (TemplateFault msg))] g3"
  | (finished) s1 g1 v2 g3 g4 v3 g5 where "\<not> falsy (elPath c)" "templateOk E c"
      "updateEl E q c s g = Inr (s1, g1)" "\<not> noEl s1" "approved (onBeforeRender c)"
      "clear (View c s1 its)
         (emit [Trigger (className c) BeforeRender, Call (className c) OnBeforeRender,
                CallParent (className c)] g1) = Inr (v2, g3)"
      "\<not> badTemplateData (vst v2)" "applyTemplate E (vst v2) g3 = Inr g4"
      "renderItems E v2 g4 = Inr (v3, g5)" "r = RThis"
      "v' = View (conf v3) ((vst v3)\<lparr>rendered := True\<rparr>) (items v3)"
      "g' = emit [Call (className c) OnAfterRender, Trigger (className c) Render] g5"
  using assms
  by (auto simp del: clear.simps renderItems.simps split: if_splits sum.splits prod.splits)

lemma updateEl_frame:
  assumes "updateEl E q c s g = Inr (s1, g1)"
  shows "dom g1 = dom g" "currentId g1 = currentId g" "rendered s1 = rendered s"
    "tpl s1 = tpl s" "templateData s1 = templateData s" "displayCssValue s1 = displayCssValue s"
  using assms
  by (auto simp: updateEl_def Let_def split: if_splits sum.splits prod.splits option.splits)

text \<open>From here on the equations of the methods are unfolded on request only.\<close>

declare clear.simps(1) [simp del] showView.simps(1) [simp del] hideView.simps(1) [simp del]
  disable.simps(1) [simp del] enable.simps(1) [simp del] destroy.simps(1) [simp del]
  render.simps(1) [simp del] renderItems.simps(1) [simp del]

subsection \<open>The counter is written by the allocator only\<close>


lemma showView_currentId:
  "showView v g = Inr (v', g') \<Longrightarrow> currentId g' = currentId g"
  "showView_array a g = Inr (a', g') \<Longrightarrow> currentId g' = currentId g"
  "showView_items xs g = Inr (xs', g') \<Longrightarrow> currentId g' = currentId g"
proof (induction v g and a g and xs g arbitrary: v' g' and a' g' and xs' g'
      rule: showView_showView_array_showView_items.induct)
  case (1 c s its g)
  from "1.prems" show ?case
  proof (cases rule: showView_cases)
    case (run its' g2)
    from "1.IH"[OF run(1) refl run(2) run(3)] run(5) show ?thesis by simp
  qed simp_all
next
  case (3 xs g)
  from "3.prems" obtain xs' where "showView_items xs g = Inr (xs', g')"
    by (auto split: sum.splits)
  then show ?case by (rule "3.IH")
next
  case (6 x xs g)
  from "6.prems" obtain x' g1 xs'' where a: "showView x g = Inr (x', g1)"
    and b: "showView_items xs g1 = Inr (xs'', g')"
    by (auto split: sum.splits)
  from "6.IH"(1)[OF a] "6.IH"(2)[OF a refl b] show ?case by simp
qed simp_all

lemma hideView_currentId:
  "hideView v g = Inr (v', g') \<Longrightarrow> currentId g' = currentId g"
  "hideView_array a g = Inr (a', g') \<Longrightarrow> currentId g' = currentId g"
  "hideView_items xs g = Inr (xs', g') \<Longrightarrow> currentId g' = currentId g"
proof (induction v g and a g and xs g arbitrary: v' g' and a' g' and xs' g'
      rule: hideView_hideView_array_hideView_items.induct)
  case (1 c s its g)
  from "1.prems" show ?case
  proof (cases rule: hideView_cases)
    case (run its' g2)
    from "1.IH"[OF run(1) refl run(2) run(3)] run(5) show ?thesis by simp
  qed simp_all
next
  case (3 xs g)
  from "3.prems" obtain xs' where "hideView_items xs g = Inr (xs', g')"
    by (auto split: sum.splits)
  then show ?case by (rule "3.IH")
next
  case (6 x xs g)
  from "6.prems" obtain x' g1 xs'' where a: "hideView x g = Inr (x', g1)"
    and b: "hideView_items xs g1 = Inr (xs'', g')"
    by (auto split: sum.splits)
  from "6.IH"(1)[OF a] "6.IH"(2)[OF a refl b] show ?case by simp
qed simp_all

lemma disable_currentId:
  "disable v g = Inr (v', g') \<Longrightarrow> currentId g' = currentId g"
  "disable_array a g = Inr (a', g') \<Longrightarrow> currentId g' = currentId g"
  "disable_items xs g = Inr (xs', g') \<Longrightarrow> currentId g' = currentId g"
proof (induction v g and a g and xs g arbitrary: v' g' and a' g' and xs' g'
      rule: disable_disable_array_disable_items.induct)
  case (1 c s its g)
  from "1.prems" show ?case
  proof (cases rule: disable_cases)
    case (run its' g2)
    from "1.IH"[OF run(1) refl run(2) run(3)] run(5) show ?thesis by simp
  qed simp_all
next
  case (3 xs g)
  from "3.prems" obtain xs' where "disable_items xs g = Inr (xs', g')"
    by (auto split: sum.splits)
  then show ?case by (rule "3.IH")
next
  case (6 x xs g)
  from "6.prems" obtain x' g1 xs'' where a: "disable x g = Inr (x', g1)"
    and b: "disable_items xs g1 = Inr (xs'', g')"
    by (auto split: sum.splits)
  from "6.IH"(1)[OF a] "6.IH"(2)[OF a refl b] show ?case by simp
qed simp_all

lemma enable_currentId:
  "enable v g = Inr (v', g') \<Longrightarrow> currentId g' = currentId g"
  "enable_array a g = Inr (a', g') \<Longrightarrow> currentId g' = currentId g"
  "enable_items xs g = Inr (xs', g') \<Longrightarrow> currentId g' = currentId g"
proof (induction v g and a g and xs g arbitrary: v' g' and a' g' and xs' g'
      rule: enable_enable_array_enable_items.induct)
  case (1 c s its g)
  from "1.prems" show ?case
  proof (cases rule: enable_cases)
    case (run its' g2)
    from "1.IH"[OF run(1) refl run(2) run(3)] run(5) show ?thesis by simp
  qed simp_all
next
  case (3 xs g)
  from "3.prems" obtain xs' where "enable_items xs g = Inr (xs', g')"
    by (auto split: sum.splits)
  then show ?case by (rule "3.IH")
next
  case (6 x xs g)
  from "6.prems" obtain x' g1 xs'' where a: "enable x g = Inr (x', g1)"
    and b: "enable_items xs g1 = Inr (xs'', g')"
    by (auto split: sum.splits)
  from "6.IH"(1)[OF a] "6.IH"(2)[OF a refl b] show ?case by simp
qed simp_all





subsection \<open>The decimal form of a number determines it\<close>




subsection \<open>A view without an array of items keeps none\<close>

lemma clear_items_None:
  "clear v g = Inr (v', g') \<Longrightarrow> items v = None \<Longrightarrow> items v' = None"
  by (cases v) (auto elim!: clear_cases)

lemma render_items_None:
  assumes "render E q v g = Inr (r, v', g')" "items v = None"
  shows "items v' = None"
proof -
  obtain c s its where v: "v = View c s its" by (cases v)
  from assms(1)[unfolded v] show ?thesis
  proof (cases rule: render_cases)
    case (badData s1 g1 g3)
    from clear_items_None[OF badData(6)] assms(2) v show ?thesis by simp
  next
    case (engineFault s1 g1 g3 msg)
    from clear_items_None[OF engineFault(6)] assms(2) v show ?thesis by simp
  next
    case (finished s1 g1 v2 g3 g4 v3 g5)
    from clear_items_None[OF finished(6)] assms(2) v have "items v2 = None" by simp
    with finished(9) have "items v3 = None"
      by (cases v2) (auto elim!: renderItems_cases)
    with finished show ?thesis by simp
  qed (use assms(2) v in simp_all)
qed

lemma init_items_None:
  assumes "init E c g = Inr (v, g')" "itemsCfg c = ItemsNull"
  shows "items v = None"
  using assms
  by (auto simp: init_def createItems_def Let_def split: sum.splits prod.splits if_splits
           dest: render_items_None)

subsection \<open>What \<open>clear\<close> and \<open>_updateEl\<close> leave alone\<close>

lemma clear_fields:
  assumes "clear (View c s its) g = Inr (v', g')"
  shows "conf v' = c" "tpl (vst v') = tpl s" "templateData (vst v') = templateData s"
    "el (vst v') = el s" "displayCssValue (vst v') = displayCssValue s"
  using assms by (auto elim!: clear_cases)

lemma clear_unrendered:
  assumes "clear (View c s its) g = Inr (v', g')" "\<not> rendered s"
  shows "v' = View c s its" "g' = g"
  using assms by (auto elim!: clear_cases)

text \<open>
  With the empty string in \<open>_tpl\<close> an approved \<open>render\<close> that returns, returns
  \<open>false\<close>, whatever the collaborators are.
\<close>

lemma render_empty_tpl:
  assumes "render E q (View c s its) g = Inr (r, v', g')" "tpl s = Some []"
    "approved (onBeforeRender c)"
  shows "r = RFalse"
  using assms(1)
proof (cases rule: render_cases)
  case (veto s1 g1)
  with assms(3) show ?thesis by simp
next
  case (finished s1 g1 v2 g3 g4 v3 g5)
  from clear_fields(2)[OF finished(6)] updateEl_frame(4)[OF finished(3)] assms(2)
  have "tpl (vst v2) = Some []" by simp
  with finished(7) show ?thesis by (simp add: badTemplateData_def)
qed simp_all

lemma clear_items_length:
  "clear_items xs g = Inr (xs', g') \<Longrightarrow> length xs' = length xs"
proof (induction xs arbitrary: xs' g)
  case (Cons x xs)
  then show ?case by (cases x) (auto split: sum.splits)
qed simp

lemma clear_length:
  assumes "clear (View c s its) g = Inr (v', g')"
  shows "map_option length (items v') = map_option length its"
  using assms
proof (cases rule: clear_cases)
  case (run its' g2)
  then show ?thesis
    by (cases its) (auto split: sum.splits dest: clear_items_length)
qed simp_all

subsection \<open>Faults of the loop of \<open>_renderItems\<close>\<close>

text \<open>Where a fault of the loop of \<open>_renderItems\<close> comes from: a hole, or a nested \<open>render\<close>.\<close>

lemma renderLoop_fault:
  "renderLoop E a cs xs g = Inl f \<Longrightarrow>
   (f = TypeError \<and> None \<in> set xs) \<or>
   (\<exists>item q g1. Some item \<in> set xs \<and> render E q item g1 = Inl f)"
proof (induction xs arbitrary: cs g)
  case Nil
  then show ?case by simp
next
  case (Cons x xs)
  show ?case
  proof (cases x)
    case None
    with Cons.prems show ?thesis by simp
  next
    case (Some item)
    let ?r = "render E (fst (placeItem a cs item g)) item (snd (placeItem a cs item g))"
    show ?thesis
    proof (cases ?r)
      case (Inl f')
      with Cons.prems Some have "f' = f" by simp
      with Inl Some show ?thesis by auto
    next
      case (Inr p)
      obtain r item' g3 where p: "p = (r, item', g3)" by (cases p)
      from Cons.prems Some Inr p have "renderLoop E a (drop 1 cs) xs g3 = Inl f"
        by (auto split: sum.splits)
      from Cons.IH[OF this] show ?thesis by auto
    qed
  qed
qed

text \<open>A fault of \<open>_renderItems\<close> is a fault of \<open>render\<close>.\<close>

lemma render_renderItems_fault:
  assumes "\<not> falsy (elPath c)" "templateOk E c" "updateEl E q c s g = Inr (s1, g1)" "\<not> noEl s1"
    "approved (onBeforeRender c)"
    "clear (View c s1 its)
       (emit [Trigger (className c) BeforeRender, Call (className c) OnBeforeRender,
              CallParent (className c)] g1) = Inr (v2, g3)"
    "\<not> badTemplateData (vst v2)" "applyTemplate E (vst v2) g3 = Inr g4"
    "renderItems E v2 g4 = Inl f"
  shows "render E q (View c s its) g = Inl f"
  using assms by (simp add: render.simps(1))

subsection \<open>The trace grows\<close>

lemma updateEl_trace:
  assumes "updateEl E q c s g = Inr (s1, g1)"
  shows "\<exists>pre. trace g1 = trace g @ pre
     \<and> set pre \<subseteq> {Trigger (className c) (Error (InvalidElPath (elPath c))),
                   Trigger (className c) (Error DuplicateIds), DelegateEvents (className c)}
     \<and> (\<not> noEl s1 \<longrightarrow>
           set pre \<subseteq> {Trigger (className c) (Error DuplicateIds), DelegateEvents (className c)})"
  using assms
  by (auto simp: updateEl_def Let_def noEl_def split: if_splits sum.splits prod.splits option.splits)

lemma clearEl_trace: "\<exists>es. trace (clearEl e g) = trace g @ es"
  by (simp add: clearEl_def Let_def split: option.splits)

lemma clear_trace:
  "clear v g = Inr (v', g') \<Longrightarrow> \<exists>es. trace g' = trace g @ es"
  "clear_array a g = Inr (a', g') \<Longrightarrow> \<exists>es. trace g' = trace g @ es"
  "clear_items xs g = Inr (xs', g') \<Longrightarrow> \<exists>es. trace g' = trace g @ es"
proof (induction v g and a g and xs g arbitrary: v' g' and a' g' and xs' g'
      rule: clear_clear_array_clear_items.induct)
  case (1 c s its g)
  from "1.prems" show ?case
  proof (cases rule: clear_cases)
    case (run its' g2)
    from "1.IH"[OF run(1) refl run(2) run(3)] obtain es where "trace g2 = trace g @ es" by auto
    moreover obtain es' where "trace (clearEl (el s) g2) = trace g2 @ es'"
      using clearEl_trace by blast
    ultimately show ?thesis using run(5) by simp
  qed simp_all
next
  case (3 xs g)
  from "3.prems" obtain xs' where "clear_items xs g = Inr (xs', g')"
    by (auto split: sum.splits)
  then show ?case by (rule "3.IH")
next
  case (6 x xs g)
  from "6.prems" obtain x' g1 xs'' where a: "clear x g = Inr (x', g1)"
    and b: "clear_items xs g1 = Inr (xs'', g')"
    by (auto split: sum.splits)
  from "6.IH"(1)[OF a] "6.IH"(2)[OF a refl b] show ?case by auto
qed simp_all

lemma destroy_trace:
  "destroy v g = Inr (v', g') \<Longrightarrow> \<exists>es. trace g' = trace g @ es"
  "destroy_array a g = Inr (a', g') \<Longrightarrow> \<exists>es. trace g' = trace g @ es"
  "destroy_items xs g = Inr (xs', g') \<Longrightarrow> \<exists>es. trace g' = trace g @ es"
proof (induction v g and a g and xs g arbitrary: v' g' and a' g' and xs' g'
      rule: destroy_destroy_array_destroy_items.induct)
  case (1 c s its g)
  from "1.prems" show ?case
  proof (cases rule: destroy_cases)
    case (run v2 g2 its' g3)
    have e: "emit [MixinObserve (className c)]
               (emit [Trigger (className c) BeforeDestroy, Call (className c) OnBeforeDestroy] g)
       = emit [Trigger (className c) BeforeDestroy, Call (className c) OnBeforeDestroy,
               MixinObserve (className c)] g"
      by (simp add: emit_def)
    from "1.IH"[OF refl run(1) run(2)[folded e] refl run(3)]
    obtain es where "trace g3 = trace g2 @ es" by auto
    moreover from clear_trace(1)[OF run(2)] obtain es' where
      "trace g2 = trace g @ [Trigger (className c) BeforeDestroy, Call (className c) OnBeforeDestroy,
               MixinObserve (className c)] @ es'" by auto
    ultimately show ?thesis using run(5) by simp
  qed simp_all
next
  case (3 xs g)
  from "3.prems" obtain xs' where "destroy_items xs g = Inr (xs', g')"
    by (auto split: sum.splits)
  then show ?case by (rule "3.IH")
next
  case (6 x xs g)
  from "6.prems" obtain x' g1 xs'' where a: "destroy x g = Inr (x', g1)"
    and b: "destroy_items xs g1 = Inr (xs'', g')"
    by (auto split: sum.splits)
  from "6.IH"(1)[OF a] "6.IH"(2)[OF a refl b] show ?case by auto
qed simp_all

subsection \<open>The loops of \<open>_createItems\<close> and \<open>destroy\<close>\<close>


text \<open>The loop of \<open>destroy\<close> destroys the nested views in order and leaves holes.\<close>

lemma destroy_items_in_order:
  "destroy_items xs g
     = (case destroyInOrder xs g of
          Inl f \<Rightarrow> Inl f
        | Inr g' \<Rightarrow> Inr (replicate (length xs) None, g'))"
proof (induction xs arbitrary: g)
  case (Cons x xs)
  then show ?case by (cases x) (auto split: sum.splits)
qed simp

subsection \<open>The \<open>display\<close> of an element\<close>

lemma fold_set_display_other:
  "h \<notin> set hs \<Longrightarrow> fold (set_display_at x) hs d ! h = d ! h"
  by (induction hs arbitrary: d) (auto simp: set_display_at_def)

lemma css_set_display_other:
  "h \<notin> set hs \<Longrightarrow> css_set_display d hs v ! h = d ! h"
  by (cases v) (simp_all add: css_set_display_def fold_set_display_other)

lemma set_display_at_length: "length (set_display_at x a d) = length d"
  by (simp add: set_display_at_def)

lemma set_display_at_hit: "h < length d \<Longrightarrow> e_display (set_display_at x h d ! h) = x"
  by (simp add: set_display_at_def)

lemma fold_set_display_hit:
  "h \<in> set hs \<Longrightarrow> h < length d \<Longrightarrow> e_display (fold (set_display_at x) hs d ! h) = x"
proof (induction hs arbitrary: d)
  case (Cons a hs)
  show ?case
  proof (cases "h \<in> set hs")
    case True
    from Cons.prems(2) have "h < length (set_display_at x a d)"
      by (simp add: set_display_at_length)
    from Cons.IH[OF True this] show ?thesis by simp
  next
    case False
    with Cons.prems have ah: "a = h" by simp
    have "fold (set_display_at x) hs (set_display_at x a d) ! h = set_display_at x a d ! h"
      using False by (rule fold_set_display_other)
    with ah set_display_at_hit[OF Cons.prems(2), of x] show ?thesis by simp
  qed
qed simp

lemma css_set_display_hit:
  "h \<in> set hs \<Longrightarrow> h < length d \<Longrightarrow> e_display (css_set_display d hs (Some x) ! h) = x"
  by (simp add: css_set_display_def fold_set_display_hit)

text \<open>
  \<open>hide\<close> and \<open>show\<close> write the \<open>display\<close> of the elements of the views they
  visit and nothing else in the document, and leave every \<open>el\<close> as it is.
\<close>

lemma hideView_frame:
  "hideView v g = Inr (v', g') \<Longrightarrow>
     length (dom g') = length (dom g) \<and> (\<forall>h. h \<notin> els v \<longrightarrow> dom g' ! h = dom g ! h) \<and> els v' = els v"
  "hideView_array a g = Inr (a', g') \<Longrightarrow>
     length (dom g') = length (dom g) \<and> (\<forall>h. h \<notin> els_array a \<longrightarrow> dom g' ! h = dom g ! h)
     \<and> els_array a' = els_array a"
  "hideView_items xs g = Inr (xs', g') \<Longrightarrow>
     length (dom g') = length (dom g) \<and> (\<forall>h. h \<notin> els_items xs \<longrightarrow> dom g' ! h = dom g ! h)
     \<and> els_items xs' = els_items xs"
proof (induction v g and a g and xs g arbitrary: v' g' and a' g' and xs' g'
      rule: hideView_hideView_array_hideView_items.induct)
  case (1 c s its g)
  from "1.prems" show ?case
  proof (cases rule: hideView_cases)
    case (run its' g2 hs)
    from "1.IH"[OF run(1) refl run(2) run(3)]
    have "length (dom g2) = length (dom g)" "\<forall>h. h \<notin> els_array its \<longrightarrow> dom g2 ! h = dom g ! h"
      "els_array its' = els_array its" by simp_all
    with run(4,5,6) show ?thesis by (simp add: css_set_display_other)
  qed simp_all
next
  case (3 xs g)
  from "3.prems" obtain xs' where x: "hideView_items xs g = Inr (xs', g')" "a' = Some xs'"
    by (auto split: sum.splits)
  from "3.IH"[OF x(1)] x(2) show ?case by simp
next
  case (6 x xs g)
  from "6.prems" obtain x' g1 xs'' where a: "hideView x g = Inr (x', g1)"
    and b: "hideView_items xs g1 = Inr (xs'', g')" and c: "xs' = Some x' # xs''"
    by (auto split: sum.splits)
  from "6.IH"(1)[OF a] "6.IH"(2)[OF a refl b] c show ?case by simp
qed simp_all

lemma showView_frame:
  "showView v g = Inr (v', g') \<Longrightarrow>
     length (dom g') = length (dom g) \<and> (\<forall>h. h \<notin> els v \<longrightarrow> dom g' ! h = dom g ! h) \<and> els v' = els v"
  "showView_array a g = Inr (a', g') \<Longrightarrow>
     length (dom g') = length (dom g) \<and> (\<forall>h. h \<notin> els_array a \<longrightarrow> dom g' ! h = dom g ! h)
     \<and> els_array a' = els_array a"
  "showView_items xs g = Inr (xs', g') \<Longrightarrow>
     length (dom g') = length (dom g) \<and> (\<forall>h. h \<notin> els_items xs \<longrightarrow> dom g' ! h = dom g ! h)
     \<and> els_items xs' = els_items xs"
proof (induction v g and a g and xs g arbitrary: v' g' and a' g' and xs' g'
      rule: showView_showView_array_showView_items.induct)
  case (1 c s its g)
  from "1.prems" show ?case
  proof (cases rule: showView_cases)
    case (run its' g2 hs)
    from "1.IH"[OF run(1) refl run(2) run(3)]
    have "length (dom g2) = length (dom g)" "\<forall>h. h \<notin> els_array its \<longrightarrow> dom g2 ! h = dom g ! h"
      "els_array its' = els_array its" by simp_all
    with run(4,5,6) show ?thesis by (simp add: css_set_display_other)
  qed simp_all
next
  case (3 xs g)
  from "3.prems" obtain xs' where x: "showView_items xs g = Inr (xs', g')" "a' = Some xs'"
    by (auto split: sum.splits)
  from "3.IH"[OF x(1)] x(2) show ?case by simp
next
  case (6 x xs g)
  from "6.prems" obtain x' g1 xs'' where a: "showView x g = Inr (x', g1)"
    and b: "showView_items xs g1 = Inr (xs'', g')" and c: "xs' = Some x' # xs''"
    by (auto split: sum.splits)
  from "6.IH"(1)[OF a] "6.IH"(2)[OF a refl b] c show ?case by simp
qed simp_all

subsection \<open>The examples are defined\<close>

text \<open>None of the constructions and first renders of the examples throws.\<close>

lemma examples_return:
  "\<not> isl (init pageEnv rootOnly page)"
  "\<not> isl (init pageEnv leafAtRoot page)"
  "\<not> isl (init pageEnv vetoAtRoot page)"
  "\<not> isl (init pageEnv panelView page)"
  "\<not> isl (init pageEnv twoLeaves page)"
  "\<not> isl (init pageEnv mixedPanel page)"
  "\<not> isl (init pageEnv brokenAtRoot page)"
  "\<not> isl (render pageEnv None (fst (construct pageEnv leafAtRoot page))
                               (snd (construct pageEnv leafAtRoot page)))"
  "\<not> isl (render pageEnv None (fst (construct pageEnv panelView page))
                               (snd (construct pageEnv panelView page)))"
  by code_simp+

subsection \<open>The loop of \<open>_createItems\<close>, entry by entry\<close>






section \<open>The claims\<close>

subsection \<open>C1: a view without a template\<close>

text \<open>
  C1 as stated fails. The page has exactly one element \<open>#root\<close>; the view is
  constructed with \<open>template: null\<close> and without nested views, and \<open>render()\<close> is
  called. The first check of \<open>render\<close> lets the \<open>null\<close> template pass, but \<open>_tpl\<close>
  is still the empty string that \<open>initPrivates\<close> stored, and the check after
  \<open>clear\<close> takes the empty string for invalid template data: \<open>render\<close> emits the
  \<open>error\<close> notification and returns \<open>false\<close>, and \<open>rendered\<close> stays \<open>false\<close>.
\<close>

theorem render_null_template_counterexample:
  "jq simpleSelector (dom page) (Some ''#root'') = Inr [1]
   \<and> template rootOnly = None \<and> itemsCfg rootOnly = ItemsNull
   \<and> observe (render pageEnv None (fst (construct pageEnv rootOnly page))
                                    (snd (construct pageEnv rootOnly page)))
       = Inr (RFalse, False,
              [CallParent ''App.view.base.View'', MixinObserve ''App.view.base.View'',
               Trigger ''App.view.base.View'' BeforeInit, Call ''App.view.base.View'' OnBeforeInit,
               Call ''App.view.base.View'' OnAfterInit, Trigger ''App.view.base.View'' Init,
               Trigger ''App.view.base.View'' BeforeRender, Call ''App.view.base.View'' OnBeforeRender,
               CallParent ''App.view.base.View'',
               Trigger ''App.view.base.View'' (Error InvalidTemplateData)],
              dom page)"
  by code_simp

text \<open>
  C1, amended. A view that is not rendered, with \<open>template: null\<close>, without
  nested views, whose \<open>elPath\<close> is set and resolves to exactly one element, and
  whose \<open>onBeforeRender\<close> approves: \<open>render\<close> passes the check of the template
  name and returns. With the empty template string that the constructor leaves
  it returns \<open>false\<close> after the \<open>error\<close> notification for invalid template
  data; \<open>rendered\<close> stays \<open>false\<close> and nothing is inserted. With a template
  string that has been set (\<open>setTemplate\<close>), data that is \<open>null\<close> or an object and
  an engine that returns, it returns the view: \<open>rendered\<close> is \<open>true\<close> and the
  markup of that string, nothing else, is appended to the element.
\<close>

theorem render_null_template:
  assumes "template c = None" and "\<not> falsy (elPath c)" and "\<not> rendered s"
    and "updateEl E q c s g = Inr (s1, g1)" and "el s1 = Some [h]"
    and "approved (onBeforeRender c)"
  shows "\<exists>r v' g'. render E q (View c s None) g = Inr (r, v', g')
     \<and> (tpl s = Some [] \<longrightarrow>
           r = RFalse \<and> \<not> rendered (vst v') \<and> dom g' = dom g
           \<and> trace g' = trace g1 @ [Trigger (className c) BeforeRender,
                                     Call (className c) OnBeforeRender, CallParent (className c),
                                     Trigger (className c) (Error InvalidTemplateData)])
     \<and> (\<forall>m. \<not> badTemplateData s \<and> tplEngine E (js_str (tpl s)) (templateData s) = Inr m \<longrightarrow>
           r = RThis \<and> rendered (vst v') \<and> dom g' = jq_append (dom g) [h] m
           \<and> trace g' = trace g1 @ [Trigger (className c) BeforeRender,
                                     Call (className c) OnBeforeRender, CallParent (className c),
                                     Call (className c) OnAfterRender,
                                     Trigger (className c) Render])"
proof -
  let ?g3 = "emit [Trigger (className c) BeforeRender, Call (className c) OnBeforeRender,
                   CallParent (className c)] g1"
  from updateEl_frame[OF assms(4)] assms(3)
  have fr: "dom g1 = dom g" "\<not> rendered s1" "tpl s1 = tpl s" "templateData s1 = templateData s"
    by simp_all
  from fr(2) have cl: "clear (View c s1 None) ?g3 = Inr (View c s1 None, ?g3)"
    by (simp add: clear.simps(1))
  from assms(1) have ok: "templateOk E c" by (simp add: templateOk_def)
  from assms(5) have ne: "\<not> noEl s1" by (simp add: noEl_def)
  from fr(3,4) have bd: "badTemplateData s1 = badTemplateData s" by (simp add: badTemplateData_def)
  show ?thesis
  proof (cases "badTemplateData s")
    case True
    with assms(2,4,6) ok ne cl bd
    have "render E q (View c s None) g
        = Inr (RFalse, View c s1 None, emit [Trigger (className c) (Error InvalidTemplateData)] ?g3)"
      by (simp add: render.simps(1))
    with True fr show ?thesis by simp
  next
    case False
    then have nt: "tpl s \<noteq> Some []" by (simp add: badTemplateData_def)
    show ?thesis
    proof (cases "tplEngine E (js_str (tpl s)) (templateData s)")
      case (Inl msg)
      with fr(3,4) assms(5) have "applyTemplate E s1 ?g3 = Inl msg"
        by (simp add: applyTemplate_def)
      with assms(2,4,6) ok ne cl bd False
      have "render E q (View c s None) g
        = Inr (RFalse, View c s1 None, emit [Trigger (className c) (Error (TemplateFault msg))] ?g3)"
        by (simp add: render.simps(1))
      with nt Inl show ?thesis by simp
    next
      case (Inr m)
      with fr(3,4) assms(5)
      have "applyTemplate E s1 ?g3 = Inr (?g3\<lparr>dom := jq_append (dom ?g3) [h] m\<rparr>)"
        by (simp add: applyTemplate_def)
      with assms(2,4,6) ok ne cl bd False
      have "render E q (View c s None) g
        = Inr (RThis, View c (s1\<lparr>rendered := True\<rparr>) None,
               emit [Call (className c) OnAfterRender, Trigger (className c) Render]
                 (?g3\<lparr>dom := jq_append (dom ?g3) [h] m\<rparr>))"
        by (simp add: render.simps(1) renderItems.simps(1))
      with nt Inr fr(1) show ?thesis by simp
    qed
  qed
qed

text \<open>
  The view constructed with \<open>template: null\<close> on the page with one \<open>#root\<close>: its
  \<open>render\<close> returns \<open>false\<close>. After \<open>setTemplate('Slot')\<close> the same view renders,
  and the one element of the \<open>Slot\<close> template is in the document.
\<close>

theorem render_null_template_witness:
  "fst (projr (render pageEnv None (fst (construct pageEnv rootOnly page))
                                 (snd (construct pageEnv rootOnly page)))) = RFalse
   \<and> observe (render pageEnv None slottedRoot (snd (construct pageEnv rootOnly page)))
       = Inr (RThis, True,
              trace (snd (construct pageEnv rootOnly page))
                @ [Trigger ''App.view.base.View'' BeforeRender,
                   Call ''App.view.base.View'' OnBeforeRender, CallParent ''App.view.base.View'',
                   Call ''App.view.base.View'' OnAfterRender, Trigger ''App.view.base.View'' Render],
              dom page @ [\<lparr>e_id = None, e_classes = [''innerContainer''], e_display = ''block'',
                           e_parent = Some 1\<rparr>])"
proof -
  let ?v = "fst (construct pageEnv rootOnly page)" and ?g = "snd (construct pageEnv rootOnly page)"
  let ?s = "vst ?v" and ?t = "vst slottedRoot"
  have c: "template rootOnly = None" "\<not> falsy (elPath rootOnly)" "approved (onBeforeRender rootOnly)"
    "className rootOnly = ''App.view.base.View''"
    by (simp_all add: rootOnly_def baseView_def falsy_def approved_def)
  have v: "?v = View rootOnly ?s None" by code_simp
  have s: "\<not> rendered ?s" "tpl ?s = Some []"
    "updateEl pageEnv None rootOnly ?s ?g = Inr (?s\<lparr>el := Some [1]\<rparr>, ?g)"
    by code_simp+
  from render_null_template[OF c(1,2) s(1) s(3) _ c(3)] s(2) v
  have one: "fst (projr (render pageEnv None ?v ?g)) = RFalse" by auto
  have t: "\<not> rendered ?t" "\<not> badTemplateData ?t"
    "updateEl pageEnv None rootOnly ?t ?g = Inr (?t\<lparr>el := Some [1]\<rparr>, ?g)"
    "tplEngine pageEnv (js_str (tpl ?t)) (templateData ?t)
       = Inr [\<lparr>e_id = None, e_classes = [''innerContainer''], e_display = ''block'', e_parent = None\<rparr>]"
    "jq_append (dom ?g) [1]
        [\<lparr>e_id = None, e_classes = [''innerContainer''], e_display = ''block'', e_parent = None\<rparr>]
       = dom page @ [\<lparr>e_id = None, e_classes = [''innerContainer''], e_display = ''block'',
                       e_parent = Some 1\<rparr>]"
    "slottedRoot = View rootOnly ?t None"
    by code_simp+
  from render_null_template[OF c(1,2) t(1) t(3) _ c(3)] t(2,4,5) c(4)
  have two: "observe (render pageEnv None (View rootOnly ?t None) ?g)
       = Inr (RThis, True,
              trace ?g
                @ [Trigger ''App.view.base.View'' BeforeRender,
                   Call ''App.view.base.View'' OnBeforeRender, CallParent ''App.view.base.View'',
                   Call ''App.view.base.View'' OnAfterRender, Trigger ''App.view.base.View'' Render],
              dom page @ [\<lparr>e_id = None, e_classes = [''innerContainer''], e_display = ''block'',
                           e_parent = Some 1\<rparr>])"
    by (auto simp: observe_def)
  from one two t(6) show ?thesis by simp
qed

subsection \<open>C2: what \<open>render\<close> returns\<close>

text \<open>
  C2 as stated fails where \<open>onBeforeRender\<close> returns \<open>false\<close>: nothing is rendered,
  and \<open>render\<close> returns the view itself (the \<open>return this\<close> after the \<open>if\<close>).
\<close>

theorem render_veto_returns_this_counterexample:
  "onBeforeRender vetoAtRoot = JFalse
   \<and> observe (render pageEnv None (fst (construct pageEnv vetoAtRoot page))
                                    (snd (construct pageEnv vetoAtRoot page)))
       = Inr (RThis, False,
              [CallParent ''App.view.Leaf'', MixinObserve ''App.view.Leaf'',
               Trigger ''App.view.Leaf'' BeforeInit, Call ''App.view.Leaf'' OnBeforeInit,
               Call ''App.view.Leaf'' OnAfterInit, Trigger ''App.view.Leaf'' Init,
               Trigger ''App.view.Leaf'' BeforeRender, Call ''App.view.Leaf'' OnBeforeRender],
              dom page)"
  by code_simp

text \<open>
  C2, amended. A call of \<open>render\<close> that returns, returns \<open>false\<close> only when the last
  thing it did was to emit an \<open>error\<close> notification, and returns the view itself
  in two cases: the render was completed (\<open>rendered\<close> is set and the \<open>render\<close>
  notification is the last thing emitted), or \<open>onBeforeRender\<close> did not approve,
  and then the hook is the last thing called and \<open>rendered\<close>, the nested views and
  the document are as before.
\<close>

theorem render_result:
  assumes "render E q (View c s its) g = Inr (r, v', g')"
  shows "(r = RFalse \<and> (\<exists>e. last (trace g') = Trigger (className c) (Error e)))
       \<or> (r = RThis \<and> approved (onBeforeRender c) \<and> rendered (vst v')
            \<and> last (trace g') = Trigger (className c) Render)
       \<or> (r = RThis \<and> \<not> approved (onBeforeRender c) \<and> rendered (vst v') = rendered s
            \<and> items v' = its \<and> dom g' = dom g
            \<and> last (trace g') = Call (className c) OnBeforeRender)"
  using assms
proof (cases rule: render_cases)
  case (veto s1 g1)
  with updateEl_frame(1,3)[OF veto(3)] show ?thesis by simp
qed simp_all

text \<open>The \<open>Leaf\<close> class on \<open>#root\<close>: \<open>render\<close> returns the view, which is rendered.\<close>

theorem render_result_witness:
  "fst (projr (render pageEnv None (fst (construct pageEnv leafAtRoot page))
                                 (snd (construct pageEnv leafAtRoot page)))) = RThis
   \<and> rendered (vst (fst (after (render pageEnv None (fst (construct pageEnv leafAtRoot page))
                                 (snd (construct pageEnv leafAtRoot page))))))
   \<and> last (trace (snd (after (render pageEnv None (fst (construct pageEnv leafAtRoot page))
                                 (snd (construct pageEnv leafAtRoot page))))))
       = Trigger ''App.view.Leaf'' Render"
proof -
  let ?v = "fst (construct pageEnv leafAtRoot page)" and ?g = "snd (construct pageEnv leafAtRoot page)"
  let ?x = "render pageEnv None ?v ?g"
  have "\<not> isl ?x" by code_simp
  then have x: "render pageEnv None (View (conf ?v) (vst ?v) (items ?v)) ?g
      = Inr (fst (projr ?x), fst (after ?x), snd (after ?x))"
    by (cases ?x) (auto simp: after_def)
  have a: "approved (onBeforeRender (conf ?v))" "fst (projr ?x) = RThis"
    "className (conf ?v) = ''App.view.Leaf''"
    by code_simp+
  from render_result[OF x] a show ?thesis by simp
qed

subsection \<open>C3: the failures that \<open>render\<close> reports\<close>

text \<open>
  C3 as stated fails for the failures that are found after \<open>clear()\<close>. The \<open>Leaf\<close>
  on \<open>#root\<close> is rendered, with its placeholder in the document below \<open>#root\<close>;
  after \<open>setData(42)\<close> a second \<open>render()\<close> reports the invalid template data and
  returns \<open>false\<close>, but the view is no longer rendered and its markup is out of
  the document.
\<close>

theorem render_failure_after_clear_counterexample:
  "rendered (vst staleLeaf)
   \<and> e_parent (dom (snd renderedLeaf) ! 2) = Some 1
   \<and> fst (projr (render pageEnv None staleLeaf (snd renderedLeaf))) = RFalse
   \<and> \<not> rendered (vst (fst (after (render pageEnv None staleLeaf (snd renderedLeaf)))))
   \<and> e_parent (dom (snd (after (render pageEnv None staleLeaf (snd renderedLeaf)))) ! 2) = None
   \<and> last (trace (snd (after (render pageEnv None staleLeaf (snd renderedLeaf)))))
       = Trigger ''App.view.Leaf'' (Error InvalidTemplateData)"
  by code_simp

text \<open>
  C3, amended. Whenever \<open>render\<close> returns \<open>false\<close>, an \<open>error\<close> notification is the
  last thing it emitted. For an unset \<open>elPath\<close>, an unresolvable template and a
  missing anchor, \<open>rendered\<close>, the nested views and the document are as before the
  call. For invalid template data (the empty template string included) and a
  fault of the templating engine, \<open>onBeforeRender\<close> has approved and the view and
  the document are as \<open>clear()\<close> left them: unchanged if the view was not rendered
  before the call. (Two or more matching anchors are reported by an \<open>error\<close>
  notification of \<open>_updateEl\<close>, which does not end the call.)
\<close>

theorem render_failure:
  assumes "render E q (View c s its) g = Inr (RFalse, v', g')"
  shows "\<exists>e. last (trace g') = Trigger (className c) (Error e)
     \<and> ((e = ElPathNotSet \<or> e = InvalidTemplate \<or> e = RootNotFound)
          \<and> rendered (vst v') = rendered s \<and> items v' = its \<and> dom g' = dom g
        \<or> (e = InvalidTemplateData \<or> (\<exists>msg. e = TemplateFault msg))
          \<and> approved (onBeforeRender c)
          \<and> (\<exists>s1 g1 g3. updateEl E q c s g = Inr (s1, g1)
                \<and> clear (View c s1 its)
                      (emit [Trigger (className c) BeforeRender, Call (className c) OnBeforeRender,
                             CallParent (className c)] g1) = Inr (v', g3)
                \<and> g' = emit [Trigger (className c) (Error e)] g3)
          \<and> (rendered s \<or> \<not> rendered (vst v') \<and> items v' = its \<and> dom g' = dom g))"
  using assms
proof (cases rule: render_cases)
  case noPath
  then show ?thesis by simp
next
  case noTemplate
  then show ?thesis by simp
next
  case (noRoot s1 g1)
  with updateEl_frame(1,3)[OF noRoot(3)] show ?thesis by simp
next
  case (badData s1 g1 g3)
  have "rendered s \<or> \<not> rendered (vst v') \<and> items v' = its \<and> dom g' = dom g"
  proof (cases "rendered s")
    case False
    with updateEl_frame(3)[OF badData(3)] have nr: "\<not> rendered s1" by simp
    from clear_unrendered[OF badData(6) nr] updateEl_frame(1)[OF badData(3)] badData(9) nr
    show ?thesis by simp
  qed simp
  with badData show ?thesis by simp
next
  case (engineFault s1 g1 g3 msg)
  have "rendered s \<or> \<not> rendered (vst v') \<and> items v' = its \<and> dom g' = dom g"
  proof (cases "rendered s")
    case False
    with updateEl_frame(3)[OF engineFault(3)] have nr: "\<not> rendered s1" by simp
    from clear_unrendered[OF engineFault(6) nr] updateEl_frame(1)[OF engineFault(3)]
      engineFault(10) nr
    show ?thesis by simp
  qed simp
  with engineFault show ?thesis by simp
qed simp_all

text \<open>
  The first \<open>render\<close> of a view constructed without a template fails after
  \<open>clear()\<close>, and so does the first \<open>render\<close> of a view whose template makes the
  engine throw; the views were not rendered, and the document is as it was.
\<close>

theorem render_failure_witness:
  "last (trace (snd (after (render pageEnv None (fst (construct pageEnv rootOnly page))
                               (snd (construct pageEnv rootOnly page))))))
     = Trigger ''App.view.base.View'' (Error InvalidTemplateData)
   \<and> dom (snd (after (render pageEnv None (fst (construct pageEnv rootOnly page))
                               (snd (construct pageEnv rootOnly page)))))
     = dom (snd (construct pageEnv rootOnly page))
   \<and> last (trace (snd (after (render pageEnv None (fst (construct pageEnv brokenAtRoot page))
                               (snd (construct pageEnv brokenAtRoot page))))))
     = Trigger ''App.view.Broken'' (Error (TemplateFault ''unexpected token''))
   \<and> dom (snd (after (render pageEnv None (fst (construct pageEnv brokenAtRoot page))
                               (snd (construct pageEnv brokenAtRoot page)))))
     = dom (snd (construct pageEnv brokenAtRoot page))"
proof -
  let ?v = "fst (construct pageEnv rootOnly page)" and ?g = "snd (construct pageEnv rootOnly page)"
  let ?x = "render pageEnv None ?v ?g"
  have "\<not> isl ?x" "fst (projr ?x) = RFalse" by code_simp+
  then have x: "render pageEnv None (View (conf ?v) (vst ?v) (items ?v)) ?g
      = Inr (RFalse, fst (after ?x), snd (after ?x))"
    by (cases ?x) (auto simp: after_def)
  have a: "\<not> rendered (vst ?v)" "className (conf ?v) = ''App.view.base.View''"
    "last (trace (snd (after ?x))) = Trigger ''App.view.base.View'' (Error InvalidTemplateData)"
    by code_simp+
  from render_failure[OF x] a
  have one: "last (trace (snd (after ?x))) = Trigger ''App.view.base.View'' (Error InvalidTemplateData)
      \<and> dom (snd (after ?x)) = dom ?g"
    by auto
  let ?w = "fst (construct pageEnv brokenAtRoot page)" and ?h = "snd (construct pageEnv brokenAtRoot page)"
  let ?y = "render pageEnv None ?w ?h"
  have "\<not> isl ?y" "fst (projr ?y) = RFalse" by code_simp+
  then have y: "render pageEnv None (View (conf ?w) (vst ?w) (items ?w)) ?h
      = Inr (RFalse, fst (after ?y), snd (after ?y))"
    by (cases ?y) (auto simp: after_def)
  have b: "\<not> rendered (vst ?w)" "className (conf ?w) = ''App.view.Broken''"
    "last (trace (snd (after ?y)))
       = Trigger ''App.view.Broken'' (Error (TemplateFault ''unexpected token''))"
    by code_simp+
  from render_failure[OF y] b
  have two: "last (trace (snd (after ?y)))
       = Trigger ''App.view.Broken'' (Error (TemplateFault ''unexpected token''))
      \<and> dom (snd (after ?y)) = dom ?h"
    by auto
  from one two show ?thesis by simp
qed

subsection \<open>C4: a hook that does not approve\<close>

text \<open>
  C4. When the \<open>onBefore...\<close> hook of a transition returns a value that is
  neither \<open>undefined\<close> nor \<open>true\<close>, the transition is a no-op. \<open>clear\<close>, \<open>show\<close>,
  \<open>hide\<close>, \<open>disable\<close> and \<open>enable\<close> of a rendered view, and \<open>destroy\<close>, emit the
  \<open>before\<close> notification, call the hook and do nothing else (on a view that is
  not rendered the first five do not get to the hook): the view and the document
  are unchanged, and there is no error, no \<open>onAfter...\<close> hook and no completion
  notification. \<open>render\<close> resolves its element first; then it emits the
  \<open>beforerender\<close> notification, calls the hook and returns: these two entries
  are all that the trace gains after the resolution, and \<open>rendered\<close>, the nested
  views, the document and the counter are as before the call. When an earlier
  check of \<open>render\<close> fails, the hook is not called.
\<close>

theorem veto_is_noop:
  "(\<not> approved (onBeforeClear c) \<longrightarrow>
      clear (View c s its) g
        = Inr (View c s its,
               if rendered s
               then emit [Trigger (className c) BeforeClear, Call (className c) OnBeforeClear] g
               else g))
 \<and> (\<not> approved (onBeforeShow c) \<longrightarrow>
      showView (View c s its) g
        = Inr (View c s its,
               if rendered s
               then emit [Trigger (className c) BeforeShow, Call (className c) OnBeforeShow] g
               else g))
 \<and> (\<not> approved (onBeforeHide c) \<longrightarrow>
      hideView (View c s its) g
        = Inr (View c s its,
               if rendered s
               then emit [Trigger (className c) BeforeHide, Call (className c) OnBeforeHide] g
               else g))
 \<and> (\<not> approved (onBeforeDisable c) \<longrightarrow>
      disable (View c s its) g
        = Inr (View c s its,
               if rendered s
               then emit [Trigger (className c) BeforeDisable, Call (className c) OnBeforeDisable] g
               else g))
 \<and> (\<not> approved (onBeforeEnable c) \<longrightarrow>
      enable (View c s its) g
        = Inr (View c s its,
               if rendered s
               then emit [Trigger (className c) BeforeEnable, Call (className c) OnBeforeEnable] g
               else g))
 \<and> (\<not> approved (onBeforeDestroy c) \<longrightarrow>
      destroy (View c s its) g
        = Inr (View c s its,
               emit [Trigger (className c) BeforeDestroy, Call (className c) OnBeforeDestroy] g))
 \<and> (\<not> approved (onBeforeRender c) \<longrightarrow>
      (\<forall>r v' g'. render E q (View c s its) g = Inr (r, v', g') \<longrightarrow>
         rendered (vst v') = rendered s \<and> items v' = its \<and> dom g' = dom g
         \<and> currentId g' = currentId g
         \<and> (r = RThis \<longrightarrow>
              (\<exists>s1 g1. updateEl E q c s g = Inr (s1, g1) \<and> v' = View c s1 its
                 \<and> g' = emit [Trigger (className c) BeforeRender,
                              Call (className c) OnBeforeRender] g1))
         \<and> (r = RFalse \<longrightarrow>
              (\<exists>es. trace g' = trace g @ es \<and> Call (className c) OnBeforeRender \<notin> set es))))"
proof -
  have r: "rendered (vst v') = rendered s \<and> items v' = its \<and> dom g' = dom g
         \<and> currentId g' = currentId g
         \<and> (r = RThis \<longrightarrow>
              (\<exists>s1 g1. updateEl E q c s g = Inr (s1, g1) \<and> v' = View c s1 its
                 \<and> g' = emit [Trigger (className c) BeforeRender,
                              Call (className c) OnBeforeRender] g1))
         \<and> (r = RFalse \<longrightarrow>
              (\<exists>es. trace g' = trace g @ es \<and> Call (className c) OnBeforeRender \<notin> set es))"
    if na: "\<not> approved (onBeforeRender c)" and x: "render E q (View c s its) g = Inr (r, v', g')"
    for r v' g'
    using x
  proof (cases rule: render_cases)
    case noPath
    then show ?thesis by simp
  next
    case noTemplate
    then show ?thesis by simp
  next
    case (noRoot s1 g1)
    from updateEl_trace[OF noRoot(3)] obtain pre where
      "trace g1 = trace g @ pre" "Call (className c) OnBeforeRender \<notin> set pre" by auto
    with noRoot updateEl_frame(1,2,3)[OF noRoot(3)] show ?thesis by simp
  next
    case (veto s1 g1)
    with updateEl_frame(1,2,3)[OF veto(3)] show ?thesis by simp
  qed (use na in simp_all)
  have a1: "\<not> approved (onBeforeClear c) \<longrightarrow>
      clear (View c s its) g
        = Inr (View c s its,
               if rendered s
               then emit [Trigger (className c) BeforeClear, Call (className c) OnBeforeClear] g
               else g)"
    by (simp add: clear.simps(1) Let_def)
  have a2: "\<not> approved (onBeforeShow c) \<longrightarrow>
      showView (View c s its) g
        = Inr (View c s its,
               if rendered s
               then emit [Trigger (className c) BeforeShow, Call (className c) OnBeforeShow] g
               else g)"
    by (simp add: showView.simps(1) Let_def)
  have a3: "\<not> approved (onBeforeHide c) \<longrightarrow>
      hideView (View c s its) g
        = Inr (View c s its,
               if rendered s
               then emit [Trigger (className c) BeforeHide, Call (className c) OnBeforeHide] g
               else g)"
    by (simp add: hideView.simps(1) Let_def)
  have a4: "\<not> approved (onBeforeDisable c) \<longrightarrow>
      disable (View c s its) g
        = Inr (View c s its,
               if rendered s
               then emit [Trigger (className c) BeforeDisable, Call (className c) OnBeforeDisable] g
               else g)"
    by (simp add: disable.simps(1) Let_def)
  have a5: "\<not> approved (onBeforeEnable c) \<longrightarrow>
      enable (View c s its) g
        = Inr (View c s its,
               if rendered s
               then emit [Trigger (className c) BeforeEnable, Call (className c) OnBeforeEnable] g
               else g)"
    by (simp add: enable.simps(1) Let_def)
  have a6: "\<not> approved (onBeforeDestroy c) \<longrightarrow>
      destroy (View c s its) g
        = Inr (View c s its,
               emit [Trigger (className c) BeforeDestroy, Call (className c) OnBeforeDestroy] g)"
    by (simp add: destroy.simps(1) Let_def)
  have a7: "\<not> approved (onBeforeRender c) \<longrightarrow>
      (\<forall>r v' g'. render E q (View c s its) g = Inr (r, v', g') \<longrightarrow>
         rendered (vst v') = rendered s \<and> items v' = its \<and> dom g' = dom g
         \<and> currentId g' = currentId g
         \<and> (r = RThis \<longrightarrow>
              (\<exists>s1 g1. updateEl E q c s g = Inr (s1, g1) \<and> v' = View c s1 its
                 \<and> g' = emit [Trigger (className c) BeforeRender,
                              Call (className c) OnBeforeRender] g1))
         \<and> (r = RFalse \<longrightarrow>
              (\<exists>es. trace g' = trace g @ es \<and> Call (className c) OnBeforeRender \<notin> set es)))"
    by (intro impI allI) (rule r)
  from a1 a2 a3 a4 a5 a6 a7 show ?thesis by (intro conjI)
qed

text \<open>
  The rendered \<open>Leaf\<close> with hooks that return \<open>false\<close>: each of the seven
  transitions leaves it rendered, with its markup in the document.
\<close>

theorem veto_is_noop_witness:
  "clear vetoedLeaf (snd renderedLeaf)
     = Inr (vetoedLeaf, emit [Trigger ''App.view.Leaf'' BeforeClear,
                              Call ''App.view.Leaf'' OnBeforeClear] (snd renderedLeaf))
   \<and> showView vetoedLeaf (snd renderedLeaf)
     = Inr (vetoedLeaf, emit [Trigger ''App.view.Leaf'' BeforeShow,
                              Call ''App.view.Leaf'' OnBeforeShow] (snd renderedLeaf))
   \<and> hideView vetoedLeaf (snd renderedLeaf)
     = Inr (vetoedLeaf, emit [Trigger ''App.view.Leaf'' BeforeHide,
                              Call ''App.view.Leaf'' OnBeforeHide] (snd renderedLeaf))
   \<and> disable vetoedLeaf (snd renderedLeaf)
     = Inr (vetoedLeaf, emit [Trigger ''App.view.Leaf'' BeforeDisable,
                              Call ''App.view.Leaf'' OnBeforeDisable] (snd renderedLeaf))
   \<and> enable vetoedLeaf (snd renderedLeaf)
     = Inr (vetoedLeaf, emit [Trigger ''App.view.Leaf'' BeforeEnable,
                              Call ''App.view.Leaf'' OnBeforeEnable] (snd renderedLeaf))
   \<and> destroy vetoedLeaf (snd renderedLeaf)
     = Inr (vetoedLeaf, emit [Trigger ''App.view.Leaf'' BeforeDestroy,
                              Call ''App.view.Leaf'' OnBeforeDestroy] (snd renderedLeaf))
   \<and> rendered (vst (fst (after (render pageEnv None vetoedLeaf (snd renderedLeaf)))))
   \<and> dom (snd (after (render pageEnv None vetoedLeaf (snd renderedLeaf)))) = dom (snd renderedLeaf)"
proof -
  let ?c = "vetoAll (conf (fst renderedLeaf))" and ?s = "vst (fst renderedLeaf)"
  let ?g = "snd renderedLeaf"
  let ?x = "render pageEnv None (View ?c ?s None) ?g"
  have na: "\<not> approved (onBeforeClear ?c)" "\<not> approved (onBeforeShow ?c)"
    "\<not> approved (onBeforeHide ?c)" "\<not> approved (onBeforeDisable ?c)"
    "\<not> approved (onBeforeEnable ?c)" "\<not> approved (onBeforeDestroy ?c)"
    "\<not> approved (onBeforeRender ?c)"
    by (simp_all add: vetoAll_def approved_def)
  have rs: "rendered ?s" by code_simp
  have cn: "className ?c = ''App.view.Leaf''" by code_simp
  have "\<not> isl ?x" by code_simp
  then have x: "?x = Inr (fst (projr ?x), fst (after ?x), snd (after ?x))"
    by (cases ?x) (auto simp: after_def)
  from veto_is_noop[where c = ?c and s = ?s and its = None and g = ?g and E = pageEnv and q = None]
    na x
  have "rendered (vst (fst (after ?x))) = rendered ?s \<and> dom (snd (after ?x)) = dom ?g"
    by blast
  with rs have r: "rendered (vst (fst (after ?x)))" "dom (snd (after ?x)) = dom ?g" by simp_all
  from veto_is_noop[where c = ?c and s = ?s and its = None and g = ?g and E = pageEnv and q = None]
    na rs cn
  have "clear (View ?c ?s None) ?g
     = Inr (View ?c ?s None, emit [Trigger ''App.view.Leaf'' BeforeClear,
                              Call ''App.view.Leaf'' OnBeforeClear] ?g)
   \<and> showView (View ?c ?s None) ?g
     = Inr (View ?c ?s None, emit [Trigger ''App.view.Leaf'' BeforeShow,
                              Call ''App.view.Leaf'' OnBeforeShow] ?g)
   \<and> hideView (View ?c ?s None) ?g
     = Inr (View ?c ?s None, emit [Trigger ''App.view.Leaf'' BeforeHide,
                              Call ''App.view.Leaf'' OnBeforeHide] ?g)
   \<and> disable (View ?c ?s None) ?g
     = Inr (View ?c ?s None, emit [Trigger ''App.view.Leaf'' BeforeDisable,
                              Call ''App.view.Leaf'' OnBeforeDisable] ?g)
   \<and> enable (View ?c ?s None) ?g
     = Inr (View ?c ?s None, emit [Trigger ''App.view.Leaf'' BeforeEnable,
                              Call ''App.view.Leaf'' OnBeforeEnable] ?g)
   \<and> destroy (View ?c ?s None) ?g
     = Inr (View ?c ?s None, emit [Trigger ''App.view.Leaf'' BeforeDestroy,
                              Call ''App.view.Leaf'' OnBeforeDestroy] ?g)"
    by simp
  with r show ?thesis by (simp add: vetoedLeaf_def)
qed

subsection \<open>C5: \<open>destroy\<close>\<close>

text \<open>
  C5 as stated fails in its last part: \<open>delete items[i]\<close> empties the slot and
  keeps the length of the array. The panel with one \<open>Leaf\<close>: after \<open>destroy()\<close>,
  \<open>items\<close> is an array of length 1 whose only slot is a hole.
\<close>

theorem destroy_items_counterexample:
  "approved (onBeforeDestroy panelView)
   \<and> map_option length (items (fst (construct pageEnv panelView page))) = Some 1
   \<and> items (fst (projr (destroy (fst (construct pageEnv panelView page))
                                 (snd (construct pageEnv panelView page))))) = Some [None]
   \<and> map_option length (items (fst (projr (destroy (fst (construct pageEnv panelView page))
                                 (snd (construct pageEnv panelView page)))))) \<noteq> Some 0"
  by code_simp

text \<open>
  C5, amended. When \<open>onBeforeDestroy\<close> approves and \<open>destroy\<close> returns: after the
  view's own \<open>clear()\<close>, \<open>destroy()\<close> is called on every nested view in declaration
  order (a nested view whose own hook does not approve stays as it is); what
  these calls emit comes before the view undelegates its own events, which is
  followed by \<open>onAfterDestroy\<close> and the \<open>destroy\<close> notification only. Afterwards
  every slot of \<open>items\<close> is a hole: the array holds no view and has the length it
  had.
\<close>

theorem destroy_children_first:
  assumes "approved (onBeforeDestroy c)" and "destroy (View c s its) g = Inr (v', g')"
  shows "\<exists>v2 g2 g3 es.
      clear (View c s its)
        (emit [Trigger (className c) BeforeDestroy, Call (className c) OnBeforeDestroy,
               MixinObserve (className c)] g) = Inr (v2, g2)
    \<and> (case items v2 of None \<Rightarrow> g3 = g2 | Some xs \<Rightarrow> destroyInOrder xs g2 = Inr g3)
    \<and> trace g3 = trace g2 @ es
    \<and> trace g' = trace g2 @ es @ [UndelegateEvents (className c), Call (className c) OnAfterDestroy,
                                   Trigger (className c) Destroy]
    \<and> items v' = map_option (\<lambda>xs. replicate (length xs) None) its"
  using assms(2)
proof (cases rule: destroy_cases)
  case veto
  with assms(1) show ?thesis by simp
next
  case (run v2 g2 its' g3)
  from destroy_trace(2)[OF run(3)] obtain es where es: "trace g3 = trace g2 @ es" by auto
  from clear_length[OF run(2)] have len: "map_option length (items v2) = map_option length its" .
  have "(case items v2 of None \<Rightarrow> g3 = g2 | Some xs \<Rightarrow> destroyInOrder xs g2 = Inr g3)
      \<and> its' = map_option (\<lambda>xs. replicate (length xs) None) (items v2)"
  proof (cases "items v2")
    case None
    with run(3) show ?thesis by simp
  next
    case (Some xs)
    with run(3) show ?thesis
      by (auto simp: destroy_items_in_order split: sum.splits)
  qed
  moreover from len have "map_option (\<lambda>xs. replicate (length xs) None) (items v2)
      = map_option (\<lambda>xs. replicate (length xs) None) its"
    by (cases "items v2"; cases its) simp_all
  ultimately show ?thesis using run es
    by (intro exI[where x = v2] exI[where x = g2] exI[where x = g3] exI[where x = es]) simp
qed

text \<open>
  The rendered panel: after \<open>destroy()\<close> its one slot is a hole, and the \<open>destroy\<close>
  notification of the \<open>Leaf\<close> is in the trace before the panel undelegates.
\<close>

theorem destroy_children_first_witness:
  "rendered (vst (fst renderedPanel))
   \<and> items (fst (projr (destroy (fst renderedPanel) (snd renderedPanel)))) = Some [None]
   \<and> last (trace (snd (projr (destroy (fst renderedPanel) (snd renderedPanel)))))
       = Trigger ''App.view.Panel'' Destroy
   \<and> Trigger ''App.view.Leaf'' Destroy
       \<in> set (butlast (butlast (butlast
             (trace (snd (projr (destroy (fst renderedPanel) (snd renderedPanel))))))))"
proof -
  let ?v = "fst renderedPanel" and ?g = "snd renderedPanel"
  let ?x = "destroy ?v ?g"
  have "\<not> isl ?x" by code_simp
  then have x: "destroy (View (conf ?v) (vst ?v) (items ?v)) ?g = Inr (fst (projr ?x), snd (projr ?x))"
    by (cases ?x) auto
  have a: "approved (onBeforeDestroy (conf ?v))" by code_simp
  have n: "className (conf ?v) = ''App.view.Panel''" by code_simp
  have l: "map_option length (items ?v) = Some 1" by code_simp
  have r: "rendered (vst ?v)" by code_simp
  have t: "Trigger ''App.view.Leaf'' Destroy \<in> set (butlast (butlast (butlast (trace (snd (projr ?x))))))"
    by code_simp
  from destroy_children_first[OF a x]
  have "last (trace (snd (projr ?x))) = Trigger (className (conf ?v)) Destroy"
    and "items (fst (projr ?x)) = map_option (\<lambda>xs. replicate (length xs) None) (items ?v)"
    by auto
  moreover from l have "map_option (\<lambda>xs. replicate (length xs) None) (items ?v) = Some [None]"
    by (cases "items ?v") auto
  ultimately show ?thesis using r t n by simp
qed

subsection \<open>C6: not enough containers\<close>

text \<open>
  C6. \<open>_renderItems\<close> of a view with at least one nested view, whose element is
  resolved and whose marker class is a selector jQuery accepts, so that \<open>find\<close>
  returns the containers: with fewer containers than nested views it throws the
  error that names the class and the number of nested views, and renders none of
  them; with at least as many the check passes and the result is that of the loop
  over the nested views, so a fault can then only be one that a nested \<open>render\<close>
  threw (or the \<open>TypeError\<close> of a hole in \<open>items\<close>).
\<close>

theorem renderItems_containers:
  assumes "items v = Some xs" and "xs \<noteq> []" and "el (vst v) = Some hs"
    and "jq_find (selector E) (dom g) hs (''.'' @ containerCls (conf v)) = Inr containers"
  shows "(length containers < length xs \<longrightarrow>
            renderItems E v g = Inl (NotEnoughContainers (className (conf v)) (length xs)))
       \<and> (length xs \<le> length containers \<longrightarrow>
            renderItems E v g
              = (case renderLoop E (autoIncrementId (conf v)) containers xs g of
                   Inl f \<Rightarrow> Inl f
                 | Inr (xs', g') \<Rightarrow> Inr (View (conf v) (vst v) (Some xs'), g'))
            \<and> (\<forall>f. renderItems E v g = Inl f \<longrightarrow>
                   (f = TypeError \<and> None \<in> set xs) \<or>
                   (\<exists>item q g1. Some item \<in> set xs \<and> render E q item g1 = Inl f)))"
proof -
  obtain c s its where v: "v = View c s its" by (cases v)
  from assms have eq: "length xs \<le> length containers \<Longrightarrow>
      renderItems E v g = (case renderLoop E (autoIncrementId (conf v)) containers xs g of
                   Inl f \<Rightarrow> Inl f
                 | Inr (xs', g') \<Rightarrow> Inr (View (conf v) (vst v) (Some xs'), g'))"
    unfolding v by (simp add: renderItems.simps(1) split: sum.splits)
  have "length xs \<le> length containers \<Longrightarrow> renderItems E v g = Inl f \<Longrightarrow>
      (f = TypeError \<and> None \<in> set xs) \<or>
      (\<exists>item q g1. Some item \<in> set xs \<and> render E q item g1 = Inl f)" for f
  proof -
    assume le: "length xs \<le> length containers" and fl: "renderItems E v g = Inl f"
    from fl eq[OF le] have "renderLoop E (autoIncrementId (conf v)) containers xs g = Inl f"
      by (auto split: sum.splits)
    then show ?thesis by (rule renderLoop_fault)
  qed
  moreover from assms v have "length containers < length xs \<Longrightarrow>
      renderItems E v g = Inl (NotEnoughContainers (className (conf v)) (length xs))"
    by (simp add: renderItems.simps(1))
  ultimately show ?thesis using eq by blast
qed

text \<open>
  Two declared \<open>Leaf\<close> views and the one container of the \<open>Slot\<close> template: the
  fault, which \<open>render\<close> of the constructed panel throws as well. One declared
  view: the check passes and the loop runs.
\<close>

theorem renderItems_containers_witness:
  "renderItems pageEnv (fst (withSlot (construct pageEnv twoLeaves page)))
       (snd (withSlot (construct pageEnv twoLeaves page)))
     = Inl (NotEnoughContainers ''App.view.Panel'' 2)
   \<and> render pageEnv None (fst (construct pageEnv twoLeaves page))
                            (snd (construct pageEnv twoLeaves page))
     = Inl (NotEnoughContainers ''App.view.Panel'' 2)
   \<and> \<not> isl (renderItems pageEnv (fst (withSlot (construct pageEnv panelView page)))
       (snd (withSlot (construct pageEnv panelView page))))"
proof -
  let ?v2 = "fst (withSlot (construct pageEnv twoLeaves page))"
  let ?g2 = "snd (withSlot (construct pageEnv twoLeaves page))"
  let ?v1 = "fst (withSlot (construct pageEnv panelView page))"
  let ?g1 = "snd (withSlot (construct pageEnv panelView page))"
  have i2: "items ?v2 = Some (the (items ?v2))" "the (items ?v2) \<noteq> []" "length (the (items ?v2)) = 2"
    by code_simp+
  have e2: "el (vst ?v2) = Some [1]" by code_simp
  have f2: "jq_find (selector pageEnv) (dom ?g2) [1] (''.'' @ containerCls (conf ?v2)) = Inr [2]"
    by code_simp
  have c2: "className (conf ?v2) = ''App.view.Panel''" by code_simp
  from renderItems_containers[OF i2(1) i2(2) e2 f2] i2(3) c2
  have a: "renderItems pageEnv ?v2 ?g2 = Inl (NotEnoughContainers ''App.view.Panel'' 2)"
    by simp
  have i1: "items ?v1 = Some (the (items ?v1))" "the (items ?v1) \<noteq> []" "length (the (items ?v1)) = 1"
    by code_simp+
  have e1: "el (vst ?v1) = Some [1]" by code_simp
  have f1: "jq_find (selector pageEnv) (dom ?g1) [1] (''.'' @ containerCls (conf ?v1)) = Inr [2]"
    by code_simp
  have l1: "\<not> isl (renderLoop pageEnv (autoIncrementId (conf ?v1)) [2] (the (items ?v1)) ?g1)"
    by code_simp
  from renderItems_containers[OF i1(1) i1(2) e1 f1] i1(3)
  have "renderItems pageEnv ?v1 ?g1
          = (case renderLoop pageEnv (autoIncrementId (conf ?v1)) [2] (the (items ?v1)) ?g1 of
               Inl f \<Rightarrow> Inl f
             | Inr (xs', g') \<Rightarrow> Inr (View (conf ?v1) (vst ?v1) (Some xs'), g'))"
    by simp
  with l1 have b: "\<not> isl (renderItems pageEnv ?v1 ?g1)"
    by (auto split: sum.splits)
  have r: "render pageEnv None (fst (construct pageEnv twoLeaves page))
                               (snd (construct pageEnv twoLeaves page))
     = Inl (NotEnoughContainers ''App.view.Panel'' 2)"
    by code_simp
  from a b r show ?thesis by simp
qed

subsection \<open>C7: \<open>hide\<close> then \<open>show\<close>\<close>

text \<open>
  C7 as stated fails when \<open>onBeforeHide\<close> does not approve: \<open>hide()\<close> captures
  nothing, and \<open>show()\<close> writes the value that \<open>initPrivates\<close> stored. The rendered
  \<open>Leaf\<close> on an element displayed as \<open>grid\<close>: after \<open>hide()\<close> and \<open>show()\<close> the
  element is displayed as \<open>block\<close>.
\<close>

theorem hide_show_veto_counterexample:
  "rendered (vst shyLeaf) \<and> el (vst shyLeaf) = Some [1]
   \<and> e_display (dom (snd renderedLeaf) ! 1) = ''grid''
   \<and> e_display (dom (snd (projr (hideThenShow shyLeaf (snd renderedLeaf)))) ! 1) = ''block''"
  by code_simp

text \<open>
  C7, amended. For a rendered view whose \<open>onBeforeHide\<close> and \<open>onBeforeShow\<close>
  approve, whose element is in the document store and is not the element of one
  of its nested views: \<open>hide()\<close> captures the \<open>display\<close> value \<open>v\<close> that the
  element (the first of the collection, which \<open>css\<close> reads) has and sets it to
  \<open>none\<close>; \<open>show()\<close> right after it sets it to \<open>v\<close> again.
\<close>

theorem hide_show_restores:
  assumes "rendered s" and "approved (onBeforeHide c)" and "approved (onBeforeShow c)"
    and "el s = Some (h # hs)" and "h < length (dom g)" and "h \<notin> els_array its"
    and "hideView (View c s its) g = Inr (v1, g1)" and "showView v1 g1 = Inr (v2, g2)"
  shows "displayCssValue (vst v1) = Some (e_display (dom g ! h))
       \<and> e_display (dom g1 ! h) = ''none''
       \<and> e_display (dom g2 ! h) = e_display (dom g ! h)"
  using assms(7)
proof (cases rule: hideView_cases)
  case idle
  with assms(1) show ?thesis by simp
next
  case veto
  with assms(2) show ?thesis by simp
next
  case (run its' ga hs')
  from run(6) assms(4) have hs': "hs' = h # hs" by simp
  from hideView_frame(2)[OF run(3)] assms(6)
  have fa: "length (dom ga) = length (dom g)" "dom ga ! h = dom g ! h" "els_array its' = els_array its"
    by simp_all
  from run(4) hs' fa(2) have cap: "displayCssValue (vst v1) = Some (e_display (dom g ! h))"
    by (simp add: css_display_def)
  from run(5) hs' fa(1) assms(5) have none: "e_display (dom g1 ! h) = ''none''"
    by (simp add: css_set_display_hit)
  from run(5) fa(1) have l1: "length (dom g1) = length (dom g)" by simp
  let ?s1 = "s\<lparr>displayCssValue := css_display (dom ga) hs'\<rparr>"
  from assms(8) run(4) have "showView (View c ?s1 its') g1 = Inr (v2, g2)" by simp
  then have "e_display (dom g2 ! h) = e_display (dom g ! h)"
  proof (cases rule: showView_cases)
    case idle
    with assms(1) show ?thesis by simp
  next
    case veto
    with assms(3) show ?thesis by simp
  next
    case (run its'' gb hs'')
    from run(6) assms(4) have hs'': "hs'' = h # hs" by simp
    from showView_frame(2)[OF run(3)] fa(3) assms(6)
    have "length (dom gb) = length (dom g1)" by simp
    with l1 assms(5) have "h < length (dom gb)" by simp
    with run(5) hs'' hs' fa(2) show ?thesis
      by (simp add: css_set_display_hit css_display_def)
  qed
  with cap none show ?thesis by simp
qed

text \<open>
  The rendered panel, on the element displayed as \<open>grid\<close>, with its rendered
  \<open>Leaf\<close> in the placeholder: hidden and shown again, it is displayed as \<open>grid\<close>.
\<close>

theorem hide_show_restores_witness:
  "e_display (dom (snd renderedPanel) ! 1) = ''grid''
   \<and> e_display (dom (snd (projr (hideView (fst renderedPanel) (snd renderedPanel)))) ! 1) = ''none''
   \<and> e_display (dom (snd (projr (hideThenShow (fst renderedPanel) (snd renderedPanel)))) ! 1) = ''grid''"
proof -
  let ?v = "fst renderedPanel" and ?g = "snd renderedPanel"
  let ?x = "hideView ?v ?g"
  let ?y = "showView (fst (projr ?x)) (snd (projr ?x))"
  have nx: "\<not> isl ?x" by code_simp
  then have x: "hideView (View (conf ?v) (vst ?v) (items ?v)) ?g = Inr (fst (projr ?x), snd (projr ?x))"
    by (cases ?x) auto
  have "\<not> isl ?y" by code_simp
  then have y: "?y = Inr (fst (projr ?y), snd (projr ?y))"
    by (cases ?y) auto
  from nx have hts: "hideThenShow ?v ?g = ?y"
    by (cases ?x) (auto simp: hideThenShow_def)
  have a: "rendered (vst ?v)" "approved (onBeforeHide (conf ?v))" "approved (onBeforeShow (conf ?v))"
    "el (vst ?v) = Some (1 # [])" "1 < length (dom ?g)" "1 \<notin> els_array (items ?v)"
    "e_display (dom ?g ! 1) = ''grid''"
    by code_simp+
  from hide_show_restores[OF a(1,2,3,4,5,6) x y] a(7) hts show ?thesis by simp
qed

subsection \<open>C8: entries of \<open>items\<close> that cannot be instantiated\<close>




subsection \<open>C9: the identifier allocator\<close>




subsection \<open>C10: the lookup by position on a view without nested views\<close>

text \<open>
  C10. While \<open>items\<close> is \<open>null\<close>, \<open>getItem\<close> with a number throws (it indexes
  \<open>null\<close>); once \<open>items\<close> is an array it returns the view at that position, or
  \<open>null\<close> when there is none. A view constructed with \<open>items: null\<close> is in the
  first case: \<open>_createItems\<close> replaces \<open>items\<close> only when it is an array, and
  nothing else in the constructor writes it.
\<close>

theorem getItem_number:
  "(items v = None \<longrightarrow> getItem (IdInteger n) v = Inl TypeError \<and> getItem IdFraction v = Inl TypeError)
   \<and> (\<forall>xs. items v = Some xs \<longrightarrow>
         getItem (IdInteger n) v
           = Inr (if 0 \<le> n \<and> nat n < length xs \<and> xs ! nat n \<noteq> None
                  then Some (Instance (nat n)) else None)
         \<and> getItem IdFraction v = Inr None)
   \<and> (\<forall>E c g g'. itemsCfg c = ItemsNull \<and> init E c g = Inr (v, g') \<longrightarrow>
         getItem (IdInteger n) v = Inl TypeError)"
  using init_items_None by (auto simp: getItem_def)

text \<open>
  A view constructed without nested views, and the panel with its one \<open>Leaf\<close>.
\<close>

theorem getItem_number_witness:
  "getItem (IdInteger 0) (fst (construct pageEnv (baseView\<lparr>elPath := Some ''#root''\<rparr>) page)) = Inl TypeError
   \<and> getItem (IdInteger 0) (fst (construct pageEnv panelView page)) = Inr (Some (Instance 0))
   \<and> getItem (IdInteger 1) (fst (construct pageEnv panelView page)) = Inr None"
proof -
  let ?c = "baseView\<lparr>elPath := Some ''#root''\<rparr>"
  have "\<not> isl (init pageEnv ?c page)" by code_simp
  then have i: "init pageEnv ?c page
      = Inr (fst (construct pageEnv ?c page), snd (construct pageEnv ?c page))"
    by (cases "init pageEnv ?c page") (auto simp: construct_def)
  have n: "itemsCfg ?c = ItemsNull" by (simp add: baseView_def)
  from getItem_number[of "fst (construct pageEnv ?c page)" 0] i n
  have a: "getItem (IdInteger 0) (fst (construct pageEnv ?c page)) = Inl TypeError" by blast
  have x: "items (fst (construct pageEnv panelView page)) =
       Some [Some (fst (construct leafEnv leafView
          (emit [CallParent ''App.view.Panel'', MixinObserve ''App.view.Panel'',
                 Trigger ''App.view.Panel'' BeforeInit, Call ''App.view.Panel'' OnBeforeInit] page)))]"
    by code_simp
  from getItem_number[of "fst (construct pageEnv panelView page)" 0] x
  have b: "getItem (IdInteger 0) (fst (construct pageEnv panelView page)) = Inr (Some (Instance 0))" by simp
  from getItem_number[of "fst (construct pageEnv panelView page)" 1] x
  have c: "getItem (IdInteger 1) (fst (construct pageEnv panelView page)) = Inr None" by simp
  from a b c show ?thesis by simp
qed

end
